(* ===== verification/Prelude.thy ===== *)
theory Prelude
  imports Main "HOL-Library.Word"
begin

section \<open>Prelude: machine integers, labelled transition systems, shared lemmas\<close>

text \<open>
  What every component of the model shares: the widths of the Go integers the code uses,
  conversion of an unbounded integer to Go's 64-bit \<open>int\<close> by wrap-around, Go's truncating
  division, and labelled transition systems (runs, invariants, potentials), which the
  concurrent models of the circuit breaker, the rate limiter, the bulkhead and the
  singleflight group instantiate.

  Two collections of facts: \<open>state_defs\<close> gathers the operations of a component that
  its proofs unfold together, \<open>clock_simps\<close> the facts about reading the clock.
\<close>

named_theorems state_defs "operations of a component that its proofs unfold together"
named_theorems clock_simps "reading the clock and the oracles of the world"

subsection \<open>Machine integers\<close>

type_synonym u32 = "32 word"
type_synonym u64 = "64 word"
type_synonym bytes = "8 word list"

text \<open>Durations and instants are nanoseconds, Go's \<open>time.Duration\<close> read as an integer.\<close>

type_synonym duration = int
type_synonym instant = int

abbreviation millisecond :: duration where "millisecond \<equiv> 1000000"
abbreviation second :: duration where "second \<equiv> 1000000000"
abbreviation minute :: duration where "minute \<equiv> 60 * second"
abbreviation hour :: duration where "hour \<equiv> 60 * minute"

abbreviation max_int64 :: int where "max_int64 \<equiv> 9223372036854775807"
abbreviation min_int64 :: int where "min_int64 \<equiv> - 9223372036854775808"

text \<open>The value Go's 64-bit \<open>int\<close> holds after an operation whose exact result is \<open>i\<close>.\<close>

definition wrap64 :: "int \<Rightarrow> int" where
  "wrap64 i = (i + 9223372036854775808) mod 18446744073709551616 - 9223372036854775808"

lemma wrap64_id: "min_int64 \<le> i \<Longrightarrow> i \<le> max_int64 \<Longrightarrow> wrap64 i = i"
  by (simp add: wrap64_def)

lemma wrap64_range: "min_int64 \<le> wrap64 i \<and> wrap64 i \<le> max_int64"
  by (simp add: wrap64_def)

lemma wrap64_overflow: "wrap64 (max_int64 + 1) = min_int64"
  by (simp add: wrap64_def)

text \<open>Go's integer division truncates towards zero.\<close>

definition trunc_div :: "int \<Rightarrow> int \<Rightarrow> int" where
  "trunc_div n k = (if (n < 0) = (k < 0) then \<bar>n\<bar> div \<bar>k\<bar> else - (\<bar>n\<bar> div \<bar>k\<bar>))"

lemma trunc_div_pos: "0 \<le> n \<Longrightarrow> 0 < k \<Longrightarrow> trunc_div n k = n div k"
  by (simp add: trunc_div_def)

lemma unat_plus_one: "a < b \<Longrightarrow> unat (a + 1 :: 'a::len word) = Suc (unat a)"
proof -
  assume "a < b"
  then have "a \<noteq> - 1"
    using word_n1_ge [of b] by (auto simp: not_less)
  then have "1 + a \<noteq> 0"
    by (metis add.commute add_eq_0_iff)
  then show ?thesis
    by (simp add: unatSuc add.commute)
qed

lemma unat_minus_one_pos: "0 < a \<Longrightarrow> unat (a - 1 :: 'a::len word) = unat a - 1"
  by (simp add: unat_minus_one word_gt_0)

lemma Suc_unat_minus_one: "0 < a \<Longrightarrow> Suc (unat (a - 1 :: 'a::len word)) = unat a"
  using unat_gt_0 [of a] by (simp add: unat_minus_one word_gt_0)

lemma unat_pos_iff: "0 < unat a \<longleftrightarrow> 0 < (a :: 'a::len word)"
  by (simp add: word_gt_0 unat_gt_0)

subsection \<open>Labelled transition systems\<close>

text \<open>
  A concurrent component is a relation \<open>step s l t\<close>: one atomic section of one goroutine,
  labelled by what happened. \<open>run step s ls t\<close> is an interleaving of such sections.
\<close>

inductive run :: "('s \<Rightarrow> 'l \<Rightarrow> 's \<Rightarrow> bool) \<Rightarrow> 's \<Rightarrow> 'l list \<Rightarrow> 's \<Rightarrow> bool"
  for step :: "'s \<Rightarrow> 'l \<Rightarrow> 's \<Rightarrow> bool"
where
  run_Nil [intro, simp]: "run step s [] s"
| run_Cons [intro]: "step s l t \<Longrightarrow> run step t ls u \<Longrightarrow> run step s (l # ls) u"

inductive_simps run_Nil_iff [simp]: "run step s [] t"
inductive_simps run_Cons_iff: "run step s (l # ls) u"

lemma run_append: "run step s xs t \<Longrightarrow> run step t ys u \<Longrightarrow> run step s (xs @ ys) u"
  by (induction rule: run.induct) auto

lemma run_snoc: "run step s xs t \<Longrightarrow> step t l u \<Longrightarrow> run step s (xs @ [l]) u"
  by (blast intro: run_append)

lemma run_append_iff: "run step s (xs @ ys) u \<longleftrightarrow> (\<exists>t. run step s xs t \<and> run step t ys u)"
  by (induction xs arbitrary: s) (auto simp: run_Cons_iff)

text \<open>An invariant: what the start states satisfy and every step keeps.\<close>

locale invariant_system =
  fixes init :: "'s \<Rightarrow> bool"
    and step :: "'s \<Rightarrow> 'l \<Rightarrow> 's \<Rightarrow> bool"
    and inv :: "'s \<Rightarrow> bool"
  assumes init_inv: "init s \<Longrightarrow> inv s"
    and step_inv: "inv s \<Longrightarrow> step s l t \<Longrightarrow> inv t"
begin

lemma run_inv: "run step s ls t \<Longrightarrow> inv s \<Longrightarrow> inv t"
  by (induction rule: run.induct) (auto intro: step_inv)

lemma reachable_inv: "init s \<Longrightarrow> run step s ls t \<Longrightarrow> inv t"
  by (blast intro: run_inv init_inv)

text \<open>A run from a state of the invariant is one of the steps guarded by it.\<close>

lemma run_guarded:
  "run step s ls t \<Longrightarrow> inv s \<Longrightarrow> run (\<lambda>s l t. inv s \<and> step s l t) s ls t"
  by (induction rule: run.induct) (auto intro: step_inv)

end

text \<open>
  A first-in first-out buffer: every step appends what it puts in and removes what it takes
  out at the head.
\<close>

locale fifo_system =
  fixes step :: "'s \<Rightarrow> 'l \<Rightarrow> 's \<Rightarrow> bool"
    and buffer :: "'s \<Rightarrow> 'a list"
    and puts :: "'l \<Rightarrow> 'a list"
    and takes :: "'l \<Rightarrow> 'a list"
  assumes step_fifo: "step s l t \<Longrightarrow> takes l @ buffer t = buffer s @ puts l"
begin

lemma run_fifo:
  "run step s ls t \<Longrightarrow> concat (map takes ls) @ buffer t = buffer s @ concat (map puts ls)"
proof (induction rule: run.induct)
  case (run_Nil s)
  then show ?case by simp
next
  case (run_Cons s l t ls u)
  have "concat (map takes (l # ls)) @ buffer u = takes l @ buffer t @ concat (map puts ls)"
    by (simp add: run_Cons.IH)
  also have "\<dots> = (buffer s @ puts l) @ concat (map puts ls)"
    by (simp only: append_assoc [symmetric] step_fifo [OF run_Cons.hyps(1)])
  finally show ?case by simp
qed

end

text \<open>
  A potential: every step pays its \<open>cost\<close> out of the potential it uses up and the
  \<open>gain\<close> it is credited with, so over a run the costs are bounded by the potential at the
  start and the gains.
\<close>

locale potential_system =
  fixes step :: "'s \<Rightarrow> 'l \<Rightarrow> 's \<Rightarrow> bool"
    and pot :: "'s \<Rightarrow> nat"
    and cost :: "'l \<Rightarrow> nat"
    and gain :: "'l \<Rightarrow> nat"
  assumes step_pot: "step s l t \<Longrightarrow> pot t + cost l \<le> pot s + gain l"
begin

lemma run_pot: "run step s ls t \<Longrightarrow> pot t + sum_list (map cost ls) \<le> pot s + sum_list (map gain ls)"
proof (induction rule: run.induct)
  case (run_Nil s)
  then show ?case by simp
next
  case (run_Cons s l t ls u)
  with step_pot [OF run_Cons.hyps(1)] show ?case by simp
qed

lemma run_cost_bound: "run step s ls t \<Longrightarrow> sum_list (map cost ls) \<le> pot s + sum_list (map gain ls)"
  using run_pot by fastforce

end

text \<open>A property that, once reached, no step leaves: a trap of the state space.\<close>

locale trap_system =
  fixes step :: "'s \<Rightarrow> 'l \<Rightarrow> 's \<Rightarrow> bool"
    and trap :: "'s \<Rightarrow> bool"
  assumes step_trap: "trap s \<Longrightarrow> step s l t \<Longrightarrow> trap t"
begin

lemma run_trap: "run step s ls t \<Longrightarrow> trap s \<Longrightarrow> trap t"
  by (induction rule: run.induct) (auto intro: step_trap)

end

subsection \<open>Lists\<close>

lemma sum_list_if_count: "sum_list (map (\<lambda>x. if P x then 1 else 0) xs) = length (filter P xs)"
  by (induction xs) auto

lemma replicate_append_split:
  "(\<exists>ys. x # rs = replicate n x @ ys) \<longleftrightarrow> (\<exists>ys. rs = replicate (n - 1) x @ ys)"
  by (cases n) auto

end
