(* ===== verification/Floats.thy ===== *)
theory Floats
  imports Complex_Main Prelude
begin

section \<open>Floating-point arithmetic\<close>

text \<open>
  The code computes with \<open>float64\<close> in the exponential backoff, the retry budget, the rate
  limiter's interval and the adaptive timeout's percentile. A finite \<open>float64\<close> is a dyadic
  rational, so a float is a \<open>rat\<close>, and every operation is the exact operation followed by the
  rounding \<open>fl_round\<close>. The rounding, \<open>math.Pow\<close>, which Go computes in assembly on some
  platforms, and the value of a conversion to \<open>int64\<close> that is out of range, which Go leaves to the
  platform, are parameters (\<open>float_env\<close>); \<open>float_ok\<close> states what IEEE 754 and the
  documentation of \<open>math.Pow\<close> promise of them: rounding is monotone, exact on integers of at
  most 53 bits and accurate to half a unit in the last place, and powers of non-negative
  numbers are not negative. Infinities are numbers above every bound in use; NaN is not modelled.
\<close>

record float_env =
  fl_round :: "rat \<Rightarrow> rat"
  fl_pow :: "rat \<Rightarrow> rat \<Rightarrow> rat"
  fl_out :: "rat \<Rightarrow> int"

definition fl_of_int :: "float_env \<Rightarrow> int \<Rightarrow> rat" where
  "fl_of_int fe i = fl_round fe (of_int i)"

definition fl_add :: "float_env \<Rightarrow> rat \<Rightarrow> rat \<Rightarrow> rat" where
  "fl_add fe x y = fl_round fe (x + y)"

definition fl_sub :: "float_env \<Rightarrow> rat \<Rightarrow> rat \<Rightarrow> rat" where
  "fl_sub fe x y = fl_round fe (x - y)"

definition fl_mul :: "float_env \<Rightarrow> rat \<Rightarrow> rat \<Rightarrow> rat" where
  "fl_mul fe x y = fl_round fe (x * y)"

definition fl_div :: "float_env \<Rightarrow> rat \<Rightarrow> rat \<Rightarrow> rat" where
  "fl_div fe x y = fl_round fe (x / y)"

text \<open>Conversion to \<open>int64\<close> truncates towards zero, when the result is in range.\<close>

definition fl_to_int :: "rat \<Rightarrow> int" where
  "fl_to_int x = (if x < 0 then \<lceil>x\<rceil> else \<lfloor>x\<rfloor>)"

definition fl_to_int64 :: "float_env \<Rightarrow> rat \<Rightarrow> int" where
  "fl_to_int64 fe x =
     (let i = fl_to_int x in if min_int64 \<le> i \<and> i \<le> max_int64 then i else fl_out fe x)"

abbreviation float_eps :: rat where "float_eps \<equiv> 1 / 9007199254740992"

definition float_ok :: "float_env \<Rightarrow> bool" where
  "float_ok fe \<longleftrightarrow> mono (fl_round fe) \<and>
     (\<forall>k. \<bar>k\<bar> \<le> 9007199254740992 \<longrightarrow> fl_round fe (of_int k) = of_int k) \<and>
     (\<forall>x. \<bar>fl_round fe x - x\<bar> \<le> \<bar>x\<bar> * float_eps + float_eps) \<and>
     (\<forall>x y. 0 \<le> x \<longrightarrow> 0 \<le> fl_pow fe x y)"

text \<open>Exact arithmetic, with the out of range conversion of the amd64 instruction.\<close>

definition exact_float :: float_env where
  "exact_float = \<lparr>fl_round = (\<lambda>x. x), fl_pow = (\<lambda>x y. x ^ nat \<lfloor>y\<rfloor>), fl_out = (\<lambda>_. min_int64)\<rparr>"

lemma exact_float_ok: "float_ok exact_float"
  by (auto simp: float_ok_def exact_float_def mono_def)

lemma fl_round_mono: "float_ok fe \<Longrightarrow> x \<le> y \<Longrightarrow> fl_round fe x \<le> fl_round fe y"
  by (simp add: float_ok_def mono_def)

lemma fl_round_int: "float_ok fe \<Longrightarrow> \<bar>k\<bar> \<le> 9007199254740992 \<Longrightarrow> fl_round fe (of_int k) = of_int k"
  by (simp add: float_ok_def)

lemma fl_round_error: "float_ok fe \<Longrightarrow> \<bar>fl_round fe x - x\<bar> \<le> \<bar>x\<bar> * float_eps + float_eps"
  by (simp add: float_ok_def)

lemma fl_round_upper:
  assumes "float_ok fe" and "\<bar>x\<bar> \<le> b"
  shows "fl_round fe x \<le> x + (b * float_eps + float_eps)"
proof -
  have "fl_round fe x - x \<le> \<bar>x\<bar> * float_eps + float_eps"
    using fl_round_error [OF assms(1), of x] by linarith
  moreover have "\<bar>x\<bar> * float_eps \<le> b * float_eps"
    using assms(2) by (intro mult_right_mono) simp_all
  ultimately show ?thesis by linarith
qed

lemma fl_round_le_int:
  "float_ok fe \<Longrightarrow> x \<le> of_int k \<Longrightarrow> \<bar>k\<bar> \<le> 9007199254740992 \<Longrightarrow> fl_round fe x \<le> of_int k"
  using fl_round_mono [of fe x "of_int k"] by (simp add: fl_round_int)

lemma fl_round_ge_int:
  "float_ok fe \<Longrightarrow> of_int k \<le> x \<Longrightarrow> \<bar>k\<bar> \<le> 9007199254740992 \<Longrightarrow> of_int k \<le> fl_round fe x"
  using fl_round_mono [of fe "of_int k" x] by (simp add: fl_round_int)

lemma fl_round_nonneg: "float_ok fe \<Longrightarrow> 0 \<le> x \<Longrightarrow> 0 \<le> fl_round fe x"
  using fl_round_ge_int [of fe 0 x] by simp

lemma fl_of_int_exact: "float_ok fe \<Longrightarrow> \<bar>k\<bar> \<le> 9007199254740992 \<Longrightarrow> fl_of_int fe k = of_int k"
  by (simp add: fl_of_int_def fl_round_int)

lemma fl_of_int_nonneg: "float_ok fe \<Longrightarrow> 0 \<le> k \<Longrightarrow> 0 \<le> fl_of_int fe k"
  by (simp add: fl_of_int_def fl_round_nonneg)

lemma fl_to_int_le: "0 \<le> x \<Longrightarrow> x < of_int k + 1 \<Longrightarrow> fl_to_int x \<le> k"
  by (simp add: fl_to_int_def) linarith

lemma fl_to_int_nonneg: "0 \<le> x \<Longrightarrow> 0 \<le> fl_to_int x"
  by (simp add: fl_to_int_def)

lemma fl_to_int64_id:
  "0 \<le> x \<Longrightarrow> x < of_int k + 1 \<Longrightarrow> k \<le> max_int64 \<Longrightarrow> fl_to_int64 fe x = fl_to_int x"
  using fl_to_int_le [of x k] fl_to_int_nonneg [of x] by (simp add: fl_to_int64_def Let_def)

lemma fl_to_int64_le: "0 \<le> x \<Longrightarrow> x < of_int k + 1 \<Longrightarrow> k \<le> max_int64 \<Longrightarrow> fl_to_int64 fe x \<le> k"
  by (simp add: fl_to_int64_id fl_to_int_le)

lemma fl_to_int64_nonneg: "0 \<le> x \<Longrightarrow> x < of_int k + 1 \<Longrightarrow> k \<le> max_int64 \<Longrightarrow> 0 \<le> fl_to_int64 fe x"
  by (simp add: fl_to_int64_id fl_to_int_nonneg)

lemma fl_to_int_of_int [simp]: "fl_to_int (of_int k) = k"
  by (simp add: fl_to_int_def)

end
