(* ===== verification/Budget.thy ===== *)
theory Budget
  imports Floats
begin

section \<open>The retry budget: \<open>budget.go\<close>\<close>

text \<open>
  \<open>RetryBudget\<close> counts in a window how often it was asked (\<open>total\<close>) and how often it said yes
  (\<open>retries\<close>). \<open>budget_allow\<close> is \<open>Allow\<close> for one caller at a time, reading the clock at
  \<open>now\<close>; theory \<open>Budget_Conc\<close> has the interleavings of several. The invariant bounds the answers yes by the budget's share of the questions, plus one.
\<close>

record retry_budget =
  rb_budget :: rat
  rb_window :: duration
  rb_total :: int
  rb_retries :: int
  rb_windowStart :: instant

definition NewRetryBudget :: "float_env \<Rightarrow> instant \<Rightarrow> rat \<Rightarrow> duration \<Rightarrow> retry_budget" where
  "NewRetryBudget fe now budget window =
     (let budget = (if budget \<le> 0 \<or> budget > 1 then fl_round fe (1 / 10) else budget);
          window = (if window \<le> 0 then 10 * second else window)
      in \<lparr>rb_budget = budget, rb_window = window, rb_total = 0, rb_retries = 0, rb_windowStart = now\<rparr>)"

definition budget_allow :: "float_env \<Rightarrow> instant \<Rightarrow> retry_budget \<Rightarrow> bool \<times> retry_budget" where
  "budget_allow fe now rb =
     (let start = rb_windowStart rb;
          rb = (if now - start > rb_window rb
                then rb\<lparr>rb_total := 0, rb_retries := 0, rb_windowStart := now\<rparr> else rb);
          rb = rb\<lparr>rb_total := rb_total rb + 1\<rparr>;
          total = rb_total rb;
          retries = rb_retries rb
      in if total \<le> 0 then (True, rb)
         else
           (let ratio = fl_div fe (fl_of_int fe retries) (fl_of_int fe total)
            in if ratio \<ge> rb_budget rb then (False, rb)
               else (True, rb\<lparr>rb_retries := rb_retries rb + 1\<rparr>)))"

definition budget_stats :: "retry_budget \<Rightarrow> int \<times> int" where
  "budget_stats rb = (rb_total rb, rb_retries rb)"

text \<open>The budget is itself a float, between 0 and 1; \<open>NewRetryBudget\<close> makes it so.\<close>

definition budget_ok :: "float_env \<Rightarrow> retry_budget \<Rightarrow> bool" where
  "budget_ok fe rb \<longleftrightarrow> 0 < rb_budget rb \<and> fl_round fe (rb_budget rb) = rb_budget rb"

definition budget_inv :: "retry_budget \<Rightarrow> bool" where
  "budget_inv rb \<longleftrightarrow> 0 \<le> rb_retries rb \<and> rb_retries rb \<le> rb_total rb \<and>
     of_int (rb_retries rb) \<le> rb_budget rb * of_int (rb_total rb) + 1"

lemma NewRetryBudget_inv: "budget_inv (NewRetryBudget fe now b w)"
  by (simp add: NewRetryBudget_def budget_inv_def Let_def)

lemma NewRetryBudget_ok:
  assumes "float_ok fe" and "fl_round fe b = b" and "0 < fl_round fe (1 / 10)"
    and "fl_round fe (fl_round fe (1 / 10)) = fl_round fe (1 / 10)"
  shows "budget_ok fe (NewRetryBudget fe now b w)"
  using assms by (auto simp: NewRetryBudget_def budget_ok_def Let_def)

lemma ratio_below_budget:
  assumes "float_ok fe" and "fl_round fe b = b" and "0 < t" and "0 \<le> r" and "r \<le> t"
    and "t \<le> 9007199254740992"
    and "fl_div fe (fl_of_int fe r) (fl_of_int fe t) < b"
  shows "of_int r < b * of_int t"
proof (rule ccontr)
  assume "\<not> of_int r < b * of_int t"
  then have "b \<le> of_int r / of_int t"
    using assms(3) by (simp add: field_simps)
  then have "fl_round fe b \<le> fl_round fe (of_int r / of_int t)"
    using assms(1) by (rule fl_round_mono [rotated])
  with assms show False
    by (simp add: fl_div_def fl_of_int_exact)
qed

lemma budget_allow_inv:
  assumes ok: "float_ok fe" "budget_ok fe rb" and inv: "budget_inv rb"
    and small: "rb_total rb < 9007199254740992"
  shows "budget_inv (snd (budget_allow fe now rb))"
proof -
  let ?rb = "if now - rb_windowStart rb > rb_window rb
     then rb\<lparr>rb_total := 0, rb_retries := 0, rb_windowStart := now\<rparr> else rb"
  have b: "0 < rb_budget rb" "fl_round fe (rb_budget rb) = rb_budget rb"
    using ok(2) by (simp_all add: budget_ok_def)
  have inv': "budget_inv ?rb" "rb_total ?rb < 9007199254740992"
    using inv small by (simp_all add: budget_inv_def)
  have bud: "rb_budget ?rb = rb_budget rb" by simp
  let ?t = "rb_total ?rb + 1" and ?r = "rb_retries ?rb"
  have grow: "of_int ?r \<le> rb_budget rb * of_int ?t + 1"
    using inv'(1) b(1) bud by (simp add: budget_inv_def algebra_simps del: if_split)
  have yes: "of_int ?r + 1 \<le> rb_budget rb * of_int ?t + 1"
    if "fl_div fe (fl_of_int fe ?r) (fl_of_int fe ?t) < rb_budget rb"
    using ratio_below_budget [OF ok(1) b(2) _ _ _ _ that] inv' by (simp add: budget_inv_def)
  show ?thesis
    using inv'(1) grow yes bud
    by (simp add: budget_allow_def budget_inv_def Let_def not_le del: if_split)
qed

lemma budget_allow_keeps:
  "rb_budget (snd (budget_allow fe now rb)) = rb_budget rb"
  "rb_window (snd (budget_allow fe now rb)) = rb_window rb"
  by (simp_all add: budget_allow_def Let_def)

lemma budget_allow_counts:
  "now - rb_windowStart rb \<le> rb_window rb \<Longrightarrow>
   rb_total (snd (budget_allow fe now rb)) = rb_total rb + 1 \<and>
   rb_retries (snd (budget_allow fe now rb)) =
     rb_retries rb + (if fst (budget_allow fe now rb) \<and> 0 < rb_total rb + 1 then 1 else 0)"
  by (simp add: budget_allow_def Let_def)

text \<open>The first question of a window is answered yes.\<close>

lemma budget_allow_first:
  "float_ok fe \<Longrightarrow> 0 < rb_budget rb \<Longrightarrow> rb_total rb = 0 \<Longrightarrow> rb_retries rb = 0 \<Longrightarrow>
   fst (budget_allow fe now rb)"
  by (simp add: budget_allow_def Let_def fl_div_def fl_of_int_exact fl_round_int [of fe 0, simplified])

subsection \<open>A sequence of questions\<close>

fun budget_allow_all :: "float_env \<Rightarrow> instant list \<Rightarrow> retry_budget \<Rightarrow> bool list \<times> retry_budget" where
  "budget_allow_all fe [] rb = ([], rb)"
| "budget_allow_all fe (t # ts) rb =
     (let (b, rb) = budget_allow fe t rb; (bs, rb) = budget_allow_all fe ts rb in (b # bs, rb))"

lemma budget_allow_same_window:
  "t - rb_windowStart rb \<le> rb_window rb \<Longrightarrow>
   rb_windowStart (snd (budget_allow fe t rb)) = rb_windowStart rb"
  by (simp add: budget_allow_def Let_def)

lemma budget_allow_all_one_window:
  assumes "\<forall>t \<in> set ts. t - rb_windowStart rb \<le> rb_window rb" and "0 \<le> rb_total rb"
  shows "rb_total (snd (budget_allow_all fe ts rb)) = rb_total rb + int (length ts) \<and>
    rb_retries (snd (budget_allow_all fe ts rb)) =
      rb_retries rb + int (length (filter id (fst (budget_allow_all fe ts rb)))) \<and>
    rb_budget (snd (budget_allow_all fe ts rb)) = rb_budget rb"
  using assms
proof (induction ts arbitrary: rb)
  case Nil
  then show ?case by simp
next
  case (Cons t ts)
  then have here: "t - rb_windowStart rb \<le> rb_window rb" by simp
  note facts = budget_allow_counts [OF here, of fe] budget_allow_same_window [OF here, of fe]
    budget_allow_keeps [of fe t rb]
  have "\<forall>t \<in> set ts. t - rb_windowStart (snd (budget_allow fe t' rb)) \<le> rb_window (snd (budget_allow fe t' rb))"
    if "t' = t" for t'
    using Cons.prems facts that by simp
  with Cons.IH [of "snd (budget_allow fe t rb)"] Cons.prems(2) facts
  show ?case by (simp add: case_prod_beta Let_def)
qed

lemma budget_allow_all_inv:
  assumes "float_ok fe" and "budget_ok fe rb" and "budget_inv rb"
    and "rb_total rb + int (length ts) \<le> 9007199254740992"
    and "\<forall>t \<in> set ts. t - rb_windowStart rb \<le> rb_window rb"
  shows "budget_inv (snd (budget_allow_all fe ts rb))"
  using assms
proof (induction ts arbitrary: rb)
  case Nil
  then show ?case by simp
next
  case (Cons t ts)
  have tot: "rb_total (snd (budget_allow fe t rb)) = rb_total rb + 1"
    using Cons.prems budget_allow_counts [of t rb fe] by simp
  have same: "rb_windowStart (snd (budget_allow fe t rb)) = rb_windowStart rb"
    using Cons.prems by (simp add: budget_allow_same_window)
  have "budget_inv (snd (budget_allow_all fe ts (snd (budget_allow fe t rb))))"
    using Cons.prems tot same budget_allow_keeps [of fe t rb]
    by (intro Cons.IH budget_allow_inv) (simp_all add: budget_ok_def)
  then show ?case by (simp add: case_prod_beta Let_def)
qed

text \<open>Asked by one caller, a new budget says yes to at most its share plus one, and counts every question.\<close>

lemma budget_allow_all_share:
  assumes "float_ok fe" and "budget_ok fe (NewRetryBudget fe now b w)"
    and "\<forall>t \<in> set ts. t - now \<le> rb_window (NewRetryBudget fe now b w)"
    and "length ts \<le> 1000000"
  shows "let (answers, rb) = budget_allow_all fe ts (NewRetryBudget fe now b w)
    in budget_stats rb = (int (length ts), int (length (filter id answers))) \<and>
       of_int (int (length (filter id answers))) \<le> rb_budget (NewRetryBudget fe now b w) * of_int (int (length ts)) + 1"
proof -
  let ?rb = "NewRetryBudget fe now b w"
  have f: "rb_windowStart ?rb = now" "rb_total ?rb = 0" "rb_retries ?rb = 0"
    by (simp_all add: NewRetryBudget_def Let_def)
  have "int (length ts) \<le> 1000000" using assms(4) by simp
  then show ?thesis
    using budget_allow_all_one_window [of ts ?rb fe] budget_allow_all_inv [of fe ?rb ts]
      NewRetryBudget_inv [of fe now b w] assms(1-3) f
    by (simp add: case_prod_beta budget_stats_def budget_inv_def)
qed

end
