(* ===== verification/Budget_Conc.thy ===== *)
theory Budget_Conc
  imports Budget
begin

section \<open>The retry budget under concurrency: \<open>budget.go\<close>\<close>

text \<open>
  Only the reset of the window is under the lock; the two counters are read and written by single
  atomic operations, so callers of \<open>Allow\<close> interleave between them. A step of \<open>ba_step\<close> is one
  atomic operation of one caller, or its section under the lock up to the first write of a shared
  field. The counters are \<open>int64\<close>, too wide to wrap around in the lifetime of a process, and
  callers are numbered below \<open>n\<close>.

  With one caller at a time this is \<open>budget_allow\<close>. With \<open>n\<close> callers, up to \<open>n\<close> of them can have
  decided on the counters of an earlier state: the budget is kept up to \<open>n\<close> answers instead of up
  to one, and \<open>n\<close> callers that arrive together are all told yes.
\<close>

datatype ba_pc =
    BaIdle
  | BaStarted instant             \<comment> \<open>has read the clock\<close>
  | BaRead instant instant        \<comment> \<open>and loaded \<open>windowStart\<close>\<close>
  | BaLocked instant              \<comment> \<open>holds the lock, the window is still the old one\<close>
  | BaTotalReset instant
  | BaRetriesReset instant
  | BaFresh                       \<comment> \<open>past the test of the window\<close>
  | BaAdded
  | BaTotal int                   \<comment> \<open>has loaded \<open>total\<close>, which is positive\<close>
  | BaYes                         \<comment> \<open>before \<open>retries.Add(1)\<close>\<close>
  | BaAnswered bool

record ba_sys =
  ba_rb :: retry_budget
  ba_lock :: bool
  ba_now :: instant
  ba_pc :: "nat \<Rightarrow> ba_pc"

datatype ba_label = BaClock duration | BaAct nat | BaSay nat bool

definition ba_goto :: "nat \<Rightarrow> ba_pc \<Rightarrow> ba_sys \<Rightarrow> ba_sys" where
  "ba_goto i pc s = s\<lparr>ba_pc := (ba_pc s)(i := pc)\<rparr>"

definition ba_upd :: "(retry_budget \<Rightarrow> retry_budget) \<Rightarrow> ba_sys \<Rightarrow> ba_sys" where
  "ba_upd f s = s\<lparr>ba_rb := f (ba_rb s)\<rparr>"

lemmas ba_ops [state_defs] = ba_goto_def ba_upd_def

definition budget_ratio :: "float_env \<Rightarrow> int \<Rightarrow> int \<Rightarrow> rat" where
  "budget_ratio fe r t = fl_div fe (fl_of_int fe r) (fl_of_int fe t)"

inductive ba_step :: "float_env \<Rightarrow> nat \<Rightarrow> ba_sys \<Rightarrow> ba_label \<Rightarrow> ba_sys \<Rightarrow> bool"
  for fe :: float_env and n :: nat
where
  ba_clock: "0 \<le> d \<Longrightarrow> ba_step fe n s (BaClock d) (s\<lparr>ba_now := ba_now s + d\<rparr>)"
| ba_enter: "i < n \<Longrightarrow> ba_pc s i = BaIdle \<or> (\<exists>b. ba_pc s i = BaAnswered b) \<Longrightarrow>
    ba_step fe n s (BaAct i) (ba_goto i (BaStarted (ba_now s)) s)"
| ba_load_start: "ba_pc s i = BaStarted now \<Longrightarrow>
    ba_step fe n s (BaAct i) (ba_goto i (BaRead now (rb_windowStart (ba_rb s))) s)"
| ba_young: "ba_pc s i = BaRead now start \<Longrightarrow> \<not> now - start > rb_window (ba_rb s) \<Longrightarrow>
    ba_step fe n s (BaAct i) (ba_goto i BaFresh s)"
| ba_lock_old: "ba_pc s i = BaRead now start \<Longrightarrow> now - start > rb_window (ba_rb s) \<Longrightarrow> \<not> ba_lock s \<Longrightarrow>
    rb_windowStart (ba_rb s) = start \<Longrightarrow>
    ba_step fe n s (BaAct i) (ba_goto i (BaLocked now) (s\<lparr>ba_lock := True\<rparr>))"
| ba_lock_new: "ba_pc s i = BaRead now start \<Longrightarrow> now - start > rb_window (ba_rb s) \<Longrightarrow> \<not> ba_lock s \<Longrightarrow>
    rb_windowStart (ba_rb s) \<noteq> start \<Longrightarrow>
    ba_step fe n s (BaAct i) (ba_goto i BaFresh s)"
| ba_reset_total: "ba_pc s i = BaLocked now \<Longrightarrow>
    ba_step fe n s (BaAct i) (ba_goto i (BaTotalReset now) (ba_upd (rb_total_update (\<lambda>_. 0)) s))"
| ba_reset_retries: "ba_pc s i = BaTotalReset now \<Longrightarrow>
    ba_step fe n s (BaAct i) (ba_goto i (BaRetriesReset now) (ba_upd (rb_retries_update (\<lambda>_. 0)) s))"
| ba_reset_start: "ba_pc s i = BaRetriesReset now \<Longrightarrow>
    ba_step fe n s (BaAct i)
      (ba_goto i BaFresh (ba_upd (rb_windowStart_update (\<lambda>_. now)) (s\<lparr>ba_lock := False\<rparr>)))"
| ba_add: "ba_pc s i = BaFresh \<Longrightarrow>
    ba_step fe n s (BaAct i) (ba_goto i BaAdded (ba_upd (rb_total_update (\<lambda>t. t + 1)) s))"
| ba_no_total: "ba_pc s i = BaAdded \<Longrightarrow> rb_total (ba_rb s) \<le> 0 \<Longrightarrow>
    ba_step fe n s (BaSay i True) (ba_goto i (BaAnswered True) s)"
| ba_load_total: "ba_pc s i = BaAdded \<Longrightarrow> 0 < rb_total (ba_rb s) \<Longrightarrow>
    ba_step fe n s (BaAct i) (ba_goto i (BaTotal (rb_total (ba_rb s))) s)"
| ba_no: "ba_pc s i = BaTotal t \<Longrightarrow> budget_ratio fe (rb_retries (ba_rb s)) t \<ge> rb_budget (ba_rb s) \<Longrightarrow>
    ba_step fe n s (BaSay i False) (ba_goto i (BaAnswered False) s)"
| ba_yes: "ba_pc s i = BaTotal t \<Longrightarrow> \<not> budget_ratio fe (rb_retries (ba_rb s)) t \<ge> rb_budget (ba_rb s) \<Longrightarrow>
    ba_step fe n s (BaAct i) (ba_goto i BaYes s)"
| ba_count: "ba_pc s i = BaYes \<Longrightarrow>
    ba_step fe n s (BaSay i True) (ba_goto i (BaAnswered True) (ba_upd (rb_retries_update (\<lambda>r. r + 1)) s))"

definition ba_init :: "float_env \<Rightarrow> rat \<Rightarrow> duration \<Rightarrow> ba_sys \<Rightarrow> bool" where
  "ba_init fe b w s \<longleftrightarrow> ba_rb s = NewRetryBudget fe (ba_now s) b w \<and> \<not> ba_lock s \<and>
     ba_pc s = (\<lambda>_. BaIdle)"

subsection \<open>The share of the budget, up to one answer per caller\<close>

text \<open>
  Callers that will be told yes, or may be, on the strength of counters that are no longer
  there: those that have decided, and those whose total is from before a reset.
\<close>

fun ba_owed :: "int \<Rightarrow> ba_pc \<Rightarrow> bool" where
  "ba_owed now BaYes = True"
| "ba_owed now (BaTotal t) = (now < t)"
| "ba_owed now pc = False"

definition ba_debt :: "nat \<Rightarrow> ba_sys \<Rightarrow> nat set" where
  "ba_debt n s = {i. i < n \<and> ba_owed (rb_total (ba_rb s)) (ba_pc s i)}"

definition ba_resetting :: "ba_sys \<Rightarrow> bool" where
  "ba_resetting s \<longleftrightarrow> (\<exists>i now. ba_pc s i = BaTotalReset now)"

definition ba_small :: "ba_sys \<Rightarrow> bool" where
  "ba_small s \<longleftrightarrow> rb_total (ba_rb s) < 9007199254740992 \<and> rb_retries (ba_rb s) < 9007199254740992"

definition ba_known :: "nat \<Rightarrow> ba_sys \<Rightarrow> bool" where
  "ba_known n s \<longleftrightarrow> 0 \<le> rb_total (ba_rb s) \<and> 0 \<le> rb_retries (ba_rb s) \<and>
     (\<forall>i. n \<le> i \<longrightarrow> ba_pc s i = BaIdle) \<and>
     (\<forall>i t. ba_pc s i = BaTotal t \<longrightarrow> 0 < t \<and> t \<le> 9007199254740992)"

definition ba_share :: "nat \<Rightarrow> ba_sys \<Rightarrow> bool" where
  "ba_share n s \<longleftrightarrow> ba_resetting s \<or>
     of_int (rb_retries (ba_rb s)) + of_nat (card (ba_debt n s))
       \<le> rb_budget (ba_rb s) * of_int (rb_total (ba_rb s)) + (of_nat n :: rat)"

lemma ba_debt_finite [simp]: "finite (ba_debt n s)"
  by (simp add: ba_debt_def)

lemma ba_debt_le: "card (ba_debt n s) \<le> n"
  using card_mono [of "{..<n}" "ba_debt n s"] by (auto simp: ba_debt_def)

lemma ratio_below:
  assumes "float_ok fe" and "budget_ok fe rb" and "0 < t" and "t \<le> 9007199254740992"
    and "0 \<le> r" and "r \<le> 9007199254740992" and "\<not> budget_ratio fe r t \<ge> rb_budget rb"
  shows "of_int r < rb_budget rb * of_int t"
proof (rule ccontr)
  assume "\<not> of_int r < rb_budget rb * of_int t"
  then have "rb_budget rb \<le> of_int r / of_int t"
    using assms(3) by (simp add: field_simps)
  then have "fl_round fe (rb_budget rb) \<le> fl_round fe (of_int r / of_int t)"
    using assms(1) by (rule fl_round_mono [rotated])
  with assms show False
    by (simp add: budget_ratio_def fl_div_def fl_of_int_exact budget_ok_def)
qed

text \<open>Steps that owe nobody more and leave the answers as they are.\<close>

lemma ba_share_mono:
  assumes "ba_share n s" and "ba_resetting s \<Longrightarrow> ba_resetting s'"
    and "rb_retries (ba_rb s') = rb_retries (ba_rb s)" and "rb_budget (ba_rb s') = rb_budget (ba_rb s)"
    and "rb_total (ba_rb s) \<le> rb_total (ba_rb s')" and "ba_debt n s' \<subseteq> ba_debt n s"
    and "0 < rb_budget (ba_rb s)"
  shows "ba_share n s'"
proof -
  have "(of_nat (card (ba_debt n s')) :: rat) \<le> of_nat (card (ba_debt n s))"
    using assms(6) by (simp add: card_mono)
  moreover have "rb_budget (ba_rb s) * of_int (rb_total (ba_rb s)) \<le> rb_budget (ba_rb s) * of_int (rb_total (ba_rb s'))"
    using assms(5,7) by (intro mult_left_mono) simp_all
  ultimately show ?thesis
    using assms(1-4) unfolding ba_share_def by (cases "ba_resetting s'"; simp; linarith)
qed

lemma ba_share_yes:
  assumes "ba_share n s" and "\<not> ba_resetting s" and pc: "ba_pc s i = BaTotal t" and i: "i < n"
    and low: "of_int (rb_retries (ba_rb s)) < rb_budget (ba_rb s) * of_int t" and b: "0 < rb_budget (ba_rb s)"
  shows "ba_share n (ba_goto i BaYes s)"
proof (cases "rb_total (ba_rb s) < t")
  case True
  then have "ba_debt n (ba_goto i BaYes s) \<subseteq> ba_debt n s" using pc by (auto simp: ba_debt_def ba_goto_def)
  with assms show ?thesis by (intro ba_share_mono [OF assms(1)]) (auto simp: ba_goto_def ba_resetting_def)
next
  case False
  have fresh: "i \<notin> ba_debt n s" using pc False by (simp add: ba_debt_def)
  have debt: "ba_debt n (ba_goto i BaYes s) = insert i (ba_debt n s)"
    using i by (auto simp: ba_debt_def ba_goto_def)
  then have "card (ba_debt n (ba_goto i BaYes s)) = Suc (card (ba_debt n s))" using fresh by simp
  then have "(of_nat (card (ba_debt n (ba_goto i BaYes s))) :: rat) \<le> of_nat n"
    using ba_debt_le [of n "ba_goto i BaYes s"] by (simp only: of_nat_le_iff)
  moreover have "rb_budget (ba_rb s) * of_int t \<le> rb_budget (ba_rb s) * of_int (rb_total (ba_rb s))"
    using False b by (intro mult_left_mono) simp_all
  ultimately show ?thesis
    using low unfolding ba_share_def by (simp add: ba_goto_def)
qed

lemma ba_share_count:
  assumes "ba_share n s" and "\<not> ba_resetting s" and pc: "ba_pc s i = BaYes" and i: "i < n"
  shows "ba_share n (ba_goto i (BaAnswered True) (ba_upd (rb_retries_update (\<lambda>r. r + 1)) s))"
proof -
  let ?s = "ba_goto i (BaAnswered True) (ba_upd (rb_retries_update (\<lambda>r. r + 1)) s)"
  have "ba_debt n ?s = ba_debt n s - {i}" by (auto simp: ba_debt_def state_defs)
  moreover have "i \<in> ba_debt n s" using pc i by (simp add: ba_debt_def)
  ultimately have "Suc (card (ba_debt n ?s)) = card (ba_debt n s)"
    by (metis ba_debt_finite card_Suc_Diff1)
  then have "(of_nat (card (ba_debt n s)) :: rat) = of_nat (card (ba_debt n ?s)) + 1"
    by (metis of_nat_Suc add.commute)
  then show ?thesis
    using assms(1,2) by (simp add: ba_share_def state_defs)
qed

lemma ba_share_reset:
  assumes "rb_retries (ba_rb s) = 0" and "0 \<le> rb_total (ba_rb s)" and "0 < rb_budget (ba_rb s)"
  shows "ba_share n s"
proof -
  have "(0 :: rat) \<le> rb_budget (ba_rb s) * of_int (rb_total (ba_rb s))"
    using assms(2,3) by simp
  moreover have "(of_nat (card (ba_debt n s)) :: rat) \<le> of_nat n"
    using ba_debt_le [of n s] by (simp only: of_nat_le_iff)
  ultimately show ?thesis using assms(1) by (simp add: ba_share_def)
qed

lemma ba_resetting_keep:
  assumes "ba_resetting s" and "\<And>now. ba_pc s i \<noteq> BaTotalReset now" and "ba_pc s' = (ba_pc s)(i := pc)"
  shows "ba_resetting s'"
proof -
  obtain j now where j: "ba_pc s j = BaTotalReset now" using assms(1) by (auto simp: ba_resetting_def)
  with assms(2) have "j \<noteq> i" by auto
  with j assms(3) show ?thesis by (auto simp: ba_resetting_def)
qed

lemma ba_owed_mono: "t \<le> t' \<Longrightarrow> ba_owed t' pc \<Longrightarrow> ba_owed t pc"
  by (cases pc) simp_all

lemma ba_share_quiet:
  assumes share: "ba_share n s" and b: "0 < rb_budget (ba_rb s)" and pc: "ba_pc s0 = ba_pc s"
    and out: "\<And>now. ba_pc s i \<noteq> BaTotalReset now" and free: "\<not> ba_owed (rb_total (ba_rb s0)) pc"
    and "rb_retries (ba_rb s0) = rb_retries (ba_rb s)" and "rb_budget (ba_rb s0) = rb_budget (ba_rb s)"
    and le: "rb_total (ba_rb s) \<le> rb_total (ba_rb s0)"
  shows "ba_share n (ba_goto i pc s0)"
proof (rule ba_share_mono [OF share _ _ _ _ _ b])
  show "ba_debt n (ba_goto i pc s0) \<subseteq> ba_debt n s"
    using pc free ba_owed_mono [OF le] by (auto simp: ba_debt_def ba_goto_def split: if_splits)
  show "ba_resetting (ba_goto i pc s0)" if "ba_resetting s"
    by (rule ba_resetting_keep [OF that out]) (simp add: ba_goto_def pc)
qed (use assms in \<open>simp_all add: ba_goto_def\<close>)

lemma ba_step_share:
  assumes "ba_step fe n s l s'" and "float_ok fe" and "budget_ok fe (ba_rb s)"
    and known: "ba_known n s" and "ba_small s" and share: "ba_share n s"
  shows "ba_share n s'"
proof -
  have b: "0 < rb_budget (ba_rb s)" using assms(3) by (simp add: budget_ok_def)
  have below: "i < n" if "ba_pc s i \<noteq> BaIdle" for i
    using known that by (metis ba_known_def not_le)
  from assms(1) show ?thesis
  proof cases
    case (ba_reset_total i now)
    then show ?thesis by (auto simp: ba_share_def ba_resetting_def state_defs)
  next
    case (ba_reset_retries i now)
    then show ?thesis
      using b known by (intro ba_share_reset) (simp_all add: state_defs ba_known_def)
  next
    case (ba_yes i t)
    show ?thesis
    proof (cases "ba_resetting s")
      case True
      then have "ba_resetting s'"
        by (rule ba_resetting_keep) (use ba_yes in \<open>auto simp: state_defs\<close>)
      then show ?thesis by (simp add: ba_share_def)
    next
      case False
      have "of_int (rb_retries (ba_rb s)) < rb_budget (ba_rb s) * of_int t"
        by (rule ratio_below [OF assms(2,3)])
          (use ba_yes known assms(5) in \<open>auto simp: ba_known_def ba_small_def\<close>)
      then show ?thesis
        using ba_share_yes [OF share False _ _ _ b] ba_yes below [of i] by simp
    qed
  next
    case (ba_count i)
    show ?thesis
    proof (cases "ba_resetting s")
      case True
      then have "ba_resetting s'"
        by (rule ba_resetting_keep) (use ba_count in \<open>auto simp: state_defs\<close>)
      then show ?thesis by (simp add: ba_share_def)
    next
      case False
      then show ?thesis using ba_share_count [OF share False] ba_count below [of i] by simp
    qed
  next
    case (ba_clock d)
    with share show ?thesis by (simp add: ba_share_def ba_resetting_def ba_debt_def)
  qed (hypsubst, rule ba_share_quiet [OF share b]; force simp: ba_upd_def)+
qed

lemma ba_step_known:
  assumes "ba_step fe n s l s'" and "ba_known n s" and "ba_small s"
  shows "ba_known n s'"
  using assms by cases (auto simp: ba_known_def ba_small_def state_defs split: if_splits)

lemma ba_step_keeps:
  "ba_step fe n s l s' \<Longrightarrow> rb_budget (ba_rb s') = rb_budget (ba_rb s)"
  by (erule ba_step.cases) (simp_all add: state_defs)

lemma ba_step_counts:
  "ba_step fe n s l s' \<Longrightarrow> ba_known n s \<Longrightarrow>
   max (rb_total (ba_rb s')) (rb_retries (ba_rb s')) \<le> max (rb_total (ba_rb s)) (rb_retries (ba_rb s)) + 1"
  by (erule ba_step.cases) (auto simp: ba_known_def state_defs)

definition ba_inv :: "float_env \<Rightarrow> nat \<Rightarrow> ba_sys \<Rightarrow> bool" where
  "ba_inv fe n s \<longleftrightarrow> float_ok fe \<and> budget_ok fe (ba_rb s) \<and> ba_known n s \<and> ba_share n s"

text \<open>A run too short to fill the counters is one of small states.\<close>

lemma ba_run_small:
  assumes "run (ba_step fe n) s ls t" and "ba_known n s"
    and "max (rb_total (ba_rb s)) (rb_retries (ba_rb s)) + int (length ls) \<le> 9007199254740992"
  shows "run (\<lambda>s l t. ba_small s \<and> ba_step fe n s l t) s ls t"
  using assms
proof (induction rule: run.induct)
  case (run_Cons s l t ls u)
  have small: "ba_small s" using run_Cons.prems(2) unfolding ba_small_def by simp linarith
  moreover have "ba_known n t" by (rule ba_step_known [OF run_Cons.hyps(1) run_Cons.prems(1) small])
  moreover have "max (rb_total (ba_rb t)) (rb_retries (ba_rb t)) + int (length ls) \<le> 9007199254740992"
    using ba_step_counts [OF run_Cons.hyps(1) run_Cons.prems(1)] run_Cons.prems(2)
    by (simp only: list.size of_nat_add of_nat_1)
  ultimately show ?case using run_Cons.hyps(1) run_Cons.IH by blast
qed simp

interpretation ba_kept: invariant_system
  "\<lambda>s. float_ok fe \<and> budget_ok fe (ba_rb s) \<and> ba_init fe b w s"
  "\<lambda>s l t. ba_small s \<and> ba_step fe n s l t" "ba_inv fe n" for fe n b w
proof unfold_locales
  fix s assume "float_ok fe \<and> budget_ok fe (ba_rb s) \<and> ba_init fe b w s"
  then show "ba_inv fe n s"
    by (auto simp: ba_inv_def ba_init_def ba_known_def budget_ok_def NewRetryBudget_def Let_def
        intro!: ba_share_reset)
next
  fix s l t assume i: "ba_inv fe n s" and st: "ba_small s \<and> ba_step fe n s l t"
  then have "rb_budget (ba_rb t) = rb_budget (ba_rb s)" by (blast intro: ba_step_keeps)
  with i st show "ba_inv fe n t"
    unfolding ba_inv_def budget_ok_def
    by (metis ba_step_share ba_step_known budget_ok_def)
qed

lemma ba_run_budget: "run (ba_step fe n) s ls t \<Longrightarrow> rb_budget (ba_rb t) = rb_budget (ba_rb s)"
  by (induction rule: run.induct) (auto dest: ba_step_keeps)

lemma ba_run_share:
  assumes "float_ok fe" and "budget_ok fe (ba_rb s)" and "ba_init fe b w s"
    and "run (ba_step fe n) s ls t" and "int (length ls) \<le> 9007199254740992" and "\<not> ba_resetting t"
  shows "of_int (rb_retries (ba_rb t)) \<le> rb_budget (ba_rb s) * of_int (rb_total (ba_rb t)) + (of_nat n :: rat)"
proof -
  have "rb_total (ba_rb s) = 0" "rb_retries (ba_rb s) = 0"
    using assms(3) by (simp_all add: ba_init_def NewRetryBudget_def Let_def)
  moreover have "ba_known n s"
    using ba_kept.init_inv [of fe s b w n] assms(1-3) by (simp add: ba_inv_def)
  ultimately have "run (\<lambda>s l t. ba_small s \<and> ba_step fe n s l t) s ls t"
    using assms(5) by (intro ba_run_small [OF assms(4)]) simp_all
  then have "ba_inv fe n t"
    using assms(1-3) by (intro ba_kept.reachable_inv [of fe s b w n]) auto
  then have "of_int (rb_retries (ba_rb t)) + of_nat (card (ba_debt n t))
      \<le> rb_budget (ba_rb t) * of_int (rb_total (ba_rb t)) + (of_nat n :: rat)"
    using assms(6) by (simp add: ba_inv_def ba_share_def)
  moreover have "(0 :: rat) \<le> of_nat (card (ba_debt n t))" by simp
  ultimately show ?thesis unfolding ba_run_budget [OF assms(4)] by linarith
qed

subsection \<open>One caller at a time\<close>

lemma ba_ops_simps [simp]:
  "ba_pc (ba_goto i pc s) i = pc" "ba_rb (ba_goto i pc s) = ba_rb s" "ba_lock (ba_goto i pc s) = ba_lock s"
  "ba_now (ba_goto i pc s) = ba_now s" "ba_goto i pc (ba_goto i pc' s) = ba_goto i pc s"
  "ba_rb (ba_upd f s) = f (ba_rb s)" "ba_pc (ba_upd f s) = ba_pc s" "ba_now (ba_upd f s) = ba_now s"
  "ba_lock (ba_upd f s) = ba_lock s" "ba_upd f (ba_goto i pc s) = ba_goto i pc (ba_upd f s)"
  "ba_upd f (ba_upd g s) = ba_upd (\<lambda>rb. f (g rb)) s"
  "ba_upd f (s\<lparr>ba_lock := b\<rparr>) = (ba_upd f s)\<lparr>ba_lock := b\<rparr>" "(ba_goto i pc s)\<lparr>ba_lock := b\<rparr> = ba_goto i pc (s\<lparr>ba_lock := b\<rparr>)"
  by (simp_all add: state_defs)

lemma ba_goto_other: "j \<noteq> i \<Longrightarrow> ba_pc (ba_goto i pc s) j = ba_pc s j"
  by (simp add: ba_goto_def)

lemma ba_unlocked: "\<not> ba_lock s \<Longrightarrow> s\<lparr>ba_lock := False\<rparr> = s"
  by (cases s) simp

lemma run_stop: "s = t \<Longrightarrow> run step s [] t"
  by simp

definition window_reset :: "instant \<Rightarrow> retry_budget \<Rightarrow> retry_budget" where
  "window_reset now rb = (if now - rb_windowStart rb > rb_window rb
     then rb\<lparr>rb_total := 0, rb_retries := 0, rb_windowStart := now\<rparr> else rb)"

text \<open>The test of the window, when nobody holds the lock.\<close>

lemma ba_alone_window:
  assumes i: "i < n" "ba_pc s i = BaIdle \<or> (\<exists>b. ba_pc s i = BaAnswered b)" and free: "\<not> ba_lock s"
  shows "\<exists>ls. run (ba_step fe n) s ls (ba_goto i BaFresh (ba_upd (window_reset (ba_now s)) s))"
proof (cases "ba_now s - rb_windowStart (ba_rb s) > rb_window (ba_rb s)")
  case True
  have "run (ba_step fe n) s (replicate 6 (BaAct i)) (ba_goto i BaFresh (ba_upd (window_reset (ba_now s)) s))"
    unfolding numeral_eq_Suc pred_numeral_simps replicate.simps BitM.simps
    apply (rule run_Cons, rule ba_enter [OF i])
    apply (rule run_Cons, rule ba_load_start, simp)
    apply (rule run_Cons, rule ba_lock_old, simp, simp add: True, simp add: free, simp)
    apply (rule run_Cons, rule ba_reset_total, simp)
    apply (rule run_Cons, rule ba_reset_retries, simp)
    apply (rule run_Cons, rule ba_reset_start, simp)
    apply (rule run_stop)
    using True free by (simp add: state_defs window_reset_def)
  then show ?thesis by blast
next
  case False
  have "run (ba_step fe n) s [BaAct i, BaAct i, BaAct i] (ba_goto i BaFresh (ba_upd (window_reset (ba_now s)) s))"
    apply (rule run_Cons, rule ba_enter [OF i])
    apply (rule run_Cons, rule ba_load_start, simp)
    apply (rule run_Cons, rule ba_young, simp, use False in simp)
    apply (rule run_stop)
    using False by (simp add: state_defs window_reset_def)
  then show ?thesis by blast
qed

lemma total_plus_one: "rb_total_update (\<lambda>t. t + 1) rb = rb\<lparr>rb_total := rb_total rb + 1\<rparr>"
  by (cases rb) simp

lemma retries_plus_one: "rb_retries_update (\<lambda>t. t + 1) rb = rb\<lparr>rb_retries := rb_retries rb + 1\<rparr>"
  by (cases rb) simp

text \<open>From there on, without interference: the counters and the answer.\<close>

lemma ba_alone_decides:
  assumes pc: "ba_pc s i = BaFresh" and pos: "0 < rb_total (ba_rb s) + 1"
    and yes: "\<not> budget_ratio fe (rb_retries (ba_rb s)) (rb_total (ba_rb s) + 1) \<ge> rb_budget (ba_rb s)"
  shows "run (ba_step fe n) s [BaAct i, BaAct i, BaAct i] (ba_goto i BaYes (ba_upd (rb_total_update (\<lambda>t. t + 1)) s))"
  apply (rule run_Cons, rule ba_add, rule pc)
  apply (rule run_Cons, rule ba_load_total, simp, use pos in simp)
  apply (rule run_Cons, rule ba_yes, simp, use yes in simp)
  by simp

lemma ba_alone_answers:
  assumes pc: "ba_pc s i = BaFresh"
  shows "\<exists>ls b. run (ba_step fe n) s ls (ba_goto i (BaAnswered b)
      (ba_upd (\<lambda>rb. let rb = rb\<lparr>rb_total := rb_total rb + 1\<rparr> in
         if b \<and> 0 < rb_total rb then rb\<lparr>rb_retries := rb_retries rb + 1\<rparr> else rb) s)) \<and>
    b = (rb_total (ba_rb s) + 1 \<le> 0 \<or>
      \<not> budget_ratio fe (rb_retries (ba_rb s)) (rb_total (ba_rb s) + 1) \<ge> rb_budget (ba_rb s))"
proof -
  let ?t = "rb_total (ba_rb s) + 1"
  consider (neg) "?t \<le> 0" | (yes) "0 < ?t" "\<not> budget_ratio fe (rb_retries (ba_rb s)) ?t \<ge> rb_budget (ba_rb s)"
    | (no) "0 < ?t" "budget_ratio fe (rb_retries (ba_rb s)) ?t \<ge> rb_budget (ba_rb s)" by linarith
  then show ?thesis
  proof cases
    case neg
    have "run (ba_step fe n) s [BaAct i, BaSay i True]
        (ba_goto i (BaAnswered True) (ba_upd (rb_total_update (\<lambda>t. t + 1)) s))"
      apply (rule run_Cons, rule ba_add, rule pc)
      apply (rule run_Cons, rule ba_no_total, simp, use neg in simp)
      by simp
    with neg show ?thesis
      by (intro exI [of _ "[BaAct i, BaSay i True]"] exI [of _ True]) (simp add: state_defs Let_def total_plus_one)
  next
    case yes
    let ?s = "ba_goto i BaYes (ba_upd (rb_total_update (\<lambda>t. t + 1)) s)"
    have "run (ba_step fe n) ?s [BaSay i True]
        (ba_goto i (BaAnswered True) (ba_upd (rb_retries_update (\<lambda>r. r + 1)) ?s))"
      by (rule run_Cons, rule ba_count, simp) simp
    from run_append [OF ba_alone_decides [OF pc yes, of n] this] yes show ?thesis
      by (intro exI [of _ "[BaAct i, BaAct i, BaAct i, BaSay i True]"] exI [of _ True])
        (simp add: state_defs Let_def total_plus_one retries_plus_one)
  next
    case no
    have "run (ba_step fe n) s [BaAct i, BaAct i, BaSay i False]
        (ba_goto i (BaAnswered False) (ba_upd (rb_total_update (\<lambda>t. t + 1)) s))"
      apply (rule run_Cons, rule ba_add, rule pc)
      apply (rule run_Cons, rule ba_load_total, simp, use no in simp)
      apply (rule run_Cons, rule ba_no, simp, use no in simp)
      by simp
    with no show ?thesis
      by (intro exI [of _ "[BaAct i, BaAct i, BaSay i False]"] exI [of _ False]) (simp add: state_defs Let_def total_plus_one)
  qed
qed

text \<open>So a caller that nobody interrupts gets the answer of \<open>budget_allow\<close> and leaves its counters.\<close>

lemma ba_alone:
  assumes i: "i < n" "ba_pc s i = BaIdle \<or> (\<exists>b. ba_pc s i = BaAnswered b)" and free: "\<not> ba_lock s"
  shows "\<exists>ls. run (ba_step fe n) s ls (ba_goto i (BaAnswered (fst (budget_allow fe (ba_now s) (ba_rb s))))
    (ba_upd (\<lambda>rb. snd (budget_allow fe (ba_now s) rb)) s))"
proof -
  let ?s = "ba_goto i BaFresh (ba_upd (window_reset (ba_now s)) s)"
  obtain ls1 where r1: "run (ba_step fe n) s ls1 ?s" using ba_alone_window [OF assms] by blast
  obtain ls2 b where r2: "run (ba_step fe n) ?s ls2 (ba_goto i (BaAnswered b)
      (ba_upd (\<lambda>rb. let rb = rb\<lparr>rb_total := rb_total rb + 1\<rparr> in
         if b \<and> 0 < rb_total rb then rb\<lparr>rb_retries := rb_retries rb + 1\<rparr> else rb) ?s))"
    and b: "b = (rb_total (ba_rb ?s) + 1 \<le> 0 \<or>
      \<not> budget_ratio fe (rb_retries (ba_rb ?s)) (rb_total (ba_rb ?s) + 1) \<ge> rb_budget (ba_rb ?s))"
    using ba_alone_answers [of ?s i fe n] by auto
  have al: "budget_allow fe (ba_now s) (ba_rb s) = (b,
      let rb = (window_reset (ba_now s) (ba_rb s))\<lparr>rb_total := rb_total (window_reset (ba_now s) (ba_rb s)) + 1\<rparr>
      in if b \<and> 0 < rb_total rb then rb\<lparr>rb_retries := rb_retries rb + 1\<rparr> else rb)"
    unfolding b by (auto simp: budget_allow_def window_reset_def budget_ratio_def Let_def)
  show ?thesis
    using run_append [OF r1 r2] by (intro exI [of _ "ls1 @ ls2"]) (simp add: al state_defs Let_def cong: if_cong)
qed

subsection \<open>Callers that arrive together\<close>

text \<open>Callers \<open>0\<close> to \<open>k - 1\<close> have passed the test, and \<open>j\<close> of them have counted.\<close>

definition ba_crowd :: "nat \<Rightarrow> nat \<Rightarrow> ba_sys \<Rightarrow> ba_sys" where
  "ba_crowd k j s = s\<lparr>ba_rb := (ba_rb s)\<lparr>rb_total := int k, rb_retries := int j\<rparr>,
     ba_pc := \<lambda>i. if i < j then BaAnswered True else if i < k then BaYes else BaIdle\<rparr>"

lemma budget_ratio_zero: "float_ok fe \<Longrightarrow> 0 < b \<Longrightarrow> \<not> b \<le> budget_ratio fe 0 t"
  by (simp add: budget_ratio_def fl_div_def fl_of_int_exact fl_round_int [of fe 0, simplified])

lemma ba_crowd_arrives:
  assumes "float_ok fe" and "0 < rb_budget (ba_rb s)" and "\<not> ba_lock s"
    and "ba_now s - rb_windowStart (ba_rb s) \<le> rb_window (ba_rb s)" and "k < n"
  shows "\<exists>ls. run (ba_step fe n) (ba_crowd k 0 s) ls (ba_crowd (Suc k) 0 s)"
proof -
  let ?s = "ba_crowd k 0 s" and ?t = "ba_goto k BaFresh (ba_crowd k 0 s)"
  have w: "ba_upd (window_reset (ba_now ?s)) ?s = ?s"
    using assms(4) by (simp add: window_reset_def ba_upd_def ba_crowd_def)
  obtain ls1 where r1: "run (ba_step fe n) ?s ls1 ?t"
    using ba_alone_window [of k n ?s fe] assms(3,5) unfolding w by (auto simp: ba_crowd_def)
  have r2: "run (ba_step fe n) ?t [BaAct k, BaAct k, BaAct k] (ba_goto k BaYes (ba_upd (rb_total_update (\<lambda>t. t + 1)) ?t))"
    by (rule ba_alone_decides) (use budget_ratio_zero [OF assms(1,2)] in \<open>simp_all add: ba_crowd_def\<close>)
  have "ba_goto k BaYes (ba_upd (rb_total_update (\<lambda>t. t + 1)) ?t) = ba_crowd (Suc k) 0 s"
    by (auto simp: ba_crowd_def state_defs fun_eq_iff less_Suc_eq)
  with run_append [OF r1 r2] show ?thesis by auto
qed

lemma ba_crowd_counts:
  assumes "j < k"
  shows "run (ba_step fe n) (ba_crowd k j s) [BaSay j True] (ba_crowd k (Suc j) s)"
proof -
  have "ba_goto j (BaAnswered True) (ba_upd (rb_retries_update (\<lambda>r. r + 1)) (ba_crowd k j s)) = ba_crowd k (Suc j) s"
    using assms by (auto simp: ba_crowd_def state_defs fun_eq_iff less_Suc_eq)
  moreover have "ba_pc (ba_crowd k j s) j = BaYes" using assms by (simp add: ba_crowd_def)
  ultimately show ?thesis by (metis ba_count run_Cons run_Nil)
qed

lemma ba_crowd_all:
  assumes "float_ok fe" and "0 < rb_budget (ba_rb s)" and "\<not> ba_lock s"
    and "ba_now s - rb_windowStart (ba_rb s) \<le> rb_window (ba_rb s)"
  shows "k \<le> n \<Longrightarrow> \<exists>ls. run (ba_step fe n) (ba_crowd 0 0 s) ls (ba_crowd k 0 s)"
    and "j \<le> k \<Longrightarrow> \<exists>ls. run (ba_step fe n) (ba_crowd k 0 s) ls (ba_crowd k j s)"
proof -
  show "\<exists>ls. run (ba_step fe n) (ba_crowd 0 0 s) ls (ba_crowd k 0 s)" if "k \<le> n"
    using that
  proof (induction k)
    case (Suc k)
    then show ?case using ba_crowd_arrives [OF assms, of k n] run_append by fastforce
  qed blast
  show "\<exists>ls. run (ba_step fe n) (ba_crowd k 0 s) ls (ba_crowd k j s)" if "j \<le> k"
    using that
  proof (induction j)
    case (Suc j)
    then show ?case using ba_crowd_counts [of j k fe n s] run_append by fastforce
  qed blast
qed

lemma ba_all_told_yes:
  assumes "float_ok fe" and "budget_ok fe (ba_rb s)" and "ba_init fe b w s"
  shows "\<exists>ls t. run (ba_step fe n) s ls t \<and> rb_total (ba_rb t) = int n \<and> rb_retries (ba_rb t) = int n \<and>
    (\<forall>i < n. ba_pc t i = BaAnswered True)"
proof -
  have s: "ba_crowd 0 0 s = s" "rb_windowStart (ba_rb s) = ba_now s" "0 \<le> rb_window (ba_rb s)"
    using assms(3) by (simp_all add: ba_init_def ba_crowd_def NewRetryBudget_def Let_def)
  have all: "\<exists>ls. run (ba_step fe n) s ls (ba_crowd n 0 s)" "\<exists>ls. run (ba_step fe n) (ba_crowd n 0 s) ls (ba_crowd n n s)"
    using ba_crowd_all [of fe s] assms s by (simp_all add: budget_ok_def ba_init_def)
  then obtain ls where "run (ba_step fe n) s ls (ba_crowd n n s)" using run_append by metis
  then show ?thesis by (intro exI [of _ ls] exI [of _ "ba_crowd n n s"]) (simp add: ba_crowd_def)
qed

end
