(* ===== verification/Strconv.thy ===== *)
theory Strconv
  imports Prelude
begin

section \<open>Decimal integers as strings: \<open>strconv.Itoa\<close>, \<open>strconv.Atoi\<close>, \<open>%d\<close>\<close>

text \<open>
  The part of Go's \<open>strconv\<close> the code calls. \<open>itoa\<close> is the decimal text of an integer
  (\<open>strconv.Itoa\<close>, \<open>strconv.FormatUint\<close> and the verb \<open>%d\<close>); \<open>atoi\<close> is \<open>strconv.Atoi\<close>:
  an optional sign, at least one decimal digit and nothing else, a value in the range of a
  64-bit \<open>int\<close>; \<open>None\<close> is an error. The two are inverse to each other on that range.
\<close>

definition digit_char :: "nat \<Rightarrow> char" where
  "digit_char d = char_of (48 + d)"

definition is_digit :: "char \<Rightarrow> bool" where
  "is_digit c \<longleftrightarrow> 48 \<le> (of_char c :: nat) \<and> (of_char c :: nat) \<le> 57"

definition digit_val :: "char \<Rightarrow> nat" where
  "digit_val c = of_char c - 48"

fun nat_text :: "nat \<Rightarrow> string" where
  "nat_text n = (if n < 10 then [digit_char n] else nat_text (n div 10) @ [digit_char (n mod 10)])"

declare nat_text.simps [simp del]

definition itoa :: "int \<Rightarrow> string" where
  "itoa i = (if i < 0 then CHR ''-'' # nat_text (nat (- i)) else nat_text (nat i))"

definition digits_val :: "string \<Rightarrow> nat" where
  "digits_val cs = foldl (\<lambda>acc c. 10 * acc + digit_val c) 0 cs"

definition parse_digits :: "string \<Rightarrow> nat option" where
  "parse_digits cs = (if cs = [] \<or> \<not> list_all is_digit cs then None else Some (digits_val cs))"

definition in_int64 :: "int \<Rightarrow> int option" where
  "in_int64 i = (if min_int64 \<le> i \<and> i \<le> max_int64 then Some i else None)"

fun atoi :: "string \<Rightarrow> int option" where
  "atoi [] = None"
| "atoi (c # cs) =
     (if c = CHR ''-'' then
        (case parse_digits cs of None \<Rightarrow> None | Some n \<Rightarrow> in_int64 (- int n))
      else if c = CHR ''+'' then
        (case parse_digits cs of None \<Rightarrow> None | Some n \<Rightarrow> in_int64 (int n))
      else
        (case parse_digits (c # cs) of None \<Rightarrow> None | Some n \<Rightarrow> in_int64 (int n)))"

lemma of_char_digit_char [simp]: "d < 10 \<Longrightarrow> (of_char (digit_char d) :: nat) = 48 + d"
  by (simp add: digit_char_def)

lemma is_digit_digit_char [simp]: "d < 10 \<Longrightarrow> is_digit (digit_char d)"
  by (simp add: is_digit_def)

lemma digit_val_digit_char [simp]: "d < 10 \<Longrightarrow> digit_val (digit_char d) = d"
  by (simp add: digit_val_def)

lemma digit_char_not_sign: "is_digit c \<Longrightarrow> c \<noteq> CHR ''-'' \<and> c \<noteq> CHR ''+''"
  by (auto simp: is_digit_def)

lemma digit_chars [simp]:
  "digit_char 0 = CHR ''0''" "digit_char (Suc 0) = CHR ''1''" "digit_char 2 = CHR ''2''"
  "digit_char 3 = CHR ''3''" "digit_char 4 = CHR ''4''" "digit_char 5 = CHR ''5''"
  "digit_char 6 = CHR ''6''" "digit_char 7 = CHR ''7''" "digit_char 8 = CHR ''8''"
  "digit_char 9 = CHR ''9''"
  by (simp_all add: digit_char_def char_of_def bit_0)

lemma nat_text_not_Nil [simp]: "nat_text n \<noteq> []"
  by (subst nat_text.simps) simp

lemma nat_text_digits: "list_all is_digit (nat_text n)"
proof (induction n rule: nat_text.induct)
  case (1 n)
  then show ?case
    by (subst nat_text.simps) auto
qed

lemma digits_val_snoc: "digits_val (cs @ [c]) = 10 * digits_val cs + digit_val c"
  by (simp add: digits_val_def)

lemma digits_val_nat_text [simp]: "digits_val (nat_text n) = n"
proof (induction n rule: nat_text.induct)
  case (1 n)
  show ?case
  proof (cases "n < 10")
    case True
    then show ?thesis by (subst nat_text.simps) (simp add: digits_val_def)
  next
    case False
    with 1 show ?thesis by (subst nat_text.simps) (simp add: digits_val_snoc)
  qed
qed

lemma parse_digits_nat_text [simp]: "parse_digits (nat_text n) = Some n"
  by (simp add: parse_digits_def nat_text_digits)

lemma atoi_unsigned:
  assumes "is_digit c"
  shows "atoi (c # cs) = (case parse_digits (c # cs) of None \<Rightarrow> None | Some n \<Rightarrow> in_int64 (int n))"
  using digit_char_not_sign [OF assms] by simp

lemma atoi_nat_text: "atoi (nat_text n) = in_int64 (int n)"
proof (cases "nat_text n")
  case Nil
  then show ?thesis by simp
next
  case (Cons c cs)
  with nat_text_digits [of n] have "is_digit c" by simp
  with Cons show ?thesis
    using atoi_unsigned [of c cs] by (simp flip: Cons)
qed

lemma atoi_itoa: "atoi (itoa i) = in_int64 i"
  by (simp add: itoa_def atoi_nat_text)

lemma atoi_range: "atoi s = Some i \<Longrightarrow> min_int64 \<le> i \<and> i \<le> max_int64"
  by (cases s) (auto simp: in_int64_def split: if_splits option.splits)

lemma itoa_inject: "itoa i = itoa j \<Longrightarrow> i = j"
proof -
  assume eq: "itoa i = itoa j"
  have neg: "nat_text n \<noteq> CHR ''-'' # xs" for n xs
    using nat_text_digits [of n] by (auto simp: is_digit_def)
  have inj: "nat_text m = nat_text n \<Longrightarrow> m = n" for m n
    by (metis digits_val_nat_text)
  show "i = j"
    using eq neg neg [symmetric] by (auto simp: itoa_def split: if_splits dest!: inj)
qed

subsection \<open>\<open>time.Duration\<close> as text: the verb \<open>%v\<close>\<close>

text \<open>
  \<open>Duration.String\<close>: a leading unit below a second (the micro sign is two bytes), otherwise
  hours, minutes and seconds; the fraction without trailing zeros.
\<close>

fun pad_digits :: "nat \<Rightarrow> nat \<Rightarrow> string" where
  "pad_digits 0 v = []"
| "pad_digits (Suc k) v = pad_digits k (v div 10) @ [digit_char (v mod 10)]"

lemma pad_digits_numeral [simp]:
  "pad_digits (numeral k) v = pad_digits (pred_numeral k) (v div 10) @ [digit_char (v mod 10)]"
  by (simp only: numeral_eq_Suc [of k] pad_digits.simps)

definition fraction_text :: "nat \<Rightarrow> nat \<Rightarrow> string" where
  "fraction_text prec v =
     (let ds = rev (dropWhile (\<lambda>c. c = CHR ''0'') (rev (pad_digits prec v)))
      in if ds = [] then [] else CHR ''.'' # ds)"

definition duration_text :: "duration \<Rightarrow> string" where
  "duration_text d =
     (let u = nat \<bar>d\<bar>;
          unit = (\<lambda>prec name. nat_text (u div 10 ^ prec) @ fraction_text prec (u mod 10 ^ prec) @ name);
          secs = u div 1000000000;
          body = (if u = 0 then ''0s''
                  else if u < 1000 then unit 0 ''ns''
                  else if u < 1000000 then unit 3 [char_of (194 :: nat), char_of (181 :: nat), CHR ''s'']
                  else if u < 1000000000 then unit 6 ''ms''
                  else (if secs \<ge> 3600 then nat_text (secs div 3600) @ ''h'' else [])
                       @ (if secs \<ge> 60 then nat_text (secs div 60 mod 60) @ ''m'' else [])
                       @ nat_text (secs mod 60) @ fraction_text 9 (u mod 1000000000) @ ''s'')
      in if d < 0 then CHR ''-'' # body else body)"

end
