(* ===== verification/Go_Errors.thy ===== *)
theory Go_Errors
  imports Strconv
begin

section \<open>Errors: \<open>errors.go\<close> and the standard library's error chains\<close>

text \<open>
  A non-nil Go error is a \<open>go_error\<close>; an \<open>error\<close> result is a \<open>go_error option\<close>, nil
  being \<open>None\<close>. The constructors are the sentinels of \<open>errors.go\<close>, the two errors of the
  \<open>context\<close> package, \<open>ErrorString\<close> for \<open>errors.New\<close> and errors from outside,
  \<open>WrapError\<close> for \<open>fmt.Errorf\<close> with verbs \<open>%w\<close> (its text and the wrapped errors in
  order), and the two error types of \<open>errors.go\<close>. \<open>error_tree\<close> is the pre-order,
  depth-first traversal that \<open>errors.Is\<close> and \<open>errors.As\<close> make.
\<close>

datatype go_error =
    ErrCircuitOpen
  | ErrMaxRetries
  | ErrNilRequest
  | ErrTimeout
  | ErrBulkheadFull
  | ErrRateLimited
  | ErrFallback
  | Canceled
  | DeadlineExceeded
  | ErrorString string
  | WrapError string "go_error list"
  | PermanentError "go_error option"
  | RequestError string string "go_error option" string int int
    \<comment> \<open>Method, URL, Err, Policy, Status, Attempts\<close>

text \<open>\<open>RequestError.Error\<close>, given the text of the inner error when there is one.\<close>

definition request_error_text ::
  "string \<Rightarrow> string \<Rightarrow> string \<Rightarrow> int \<Rightarrow> int \<Rightarrow> string option \<Rightarrow> string" where
  "request_error_text meth url policy status attempts inner =
     (let prefix = (if policy \<noteq> '''' then ''ambatukam['' @ policy @ '']'' else ''ambatukam'');
          parts = (if status > 0
                   then prefix @ '': '' @ meth @ '' '' @ url @ '' returned status '' @ itoa status
                        @ '' after '' @ itoa attempts @ '' attempt(s)''
                   else prefix @ '': '' @ meth @ '' '' @ url
                        @ '' after '' @ itoa attempts @ '' attempt(s)'')
      in case inner of None \<Rightarrow> parts | Some s \<Rightarrow> parts @ '': '' @ s)"

text \<open>The method \<open>Error()\<close> of every error.\<close>

fun error_text :: "go_error \<Rightarrow> string" where
  "error_text ErrCircuitOpen = ''ambatukam: circuit breaker is open''"
| "error_text ErrMaxRetries = ''ambatukam: max retries exceeded''"
| "error_text ErrNilRequest = ''ambatukam: nil request''"
| "error_text ErrTimeout = ''ambatukam: per-attempt timeout exceeded''"
| "error_text ErrBulkheadFull = ''ambatukam: bulkhead full''"
| "error_text ErrRateLimited = ''ambatukam: rate limited''"
| "error_text ErrFallback = ''ambatukam: fallback failed''"
| "error_text Canceled = ''context canceled''"
| "error_text DeadlineExceeded = ''context deadline exceeded''"
| "error_text (ErrorString s) = s"
| "error_text (WrapError s es) = s"
| "error_text (PermanentError None) = ''permanent error''"
| "error_text (PermanentError (Some e)) = ''permanent: '' @ error_text e"
| "error_text (RequestError m u None p st n) = request_error_text m u p st n None"
| "error_text (RequestError m u (Some e) p st n) = request_error_text m u p st n (Some (error_text e))"

text \<open>The error tree, an error before the errors it unwraps to.\<close>

fun error_tree :: "go_error \<Rightarrow> go_error list" where
  "error_tree (WrapError s es) = WrapError s es # concat (map error_tree es)"
| "error_tree (PermanentError (Some e)) = PermanentError (Some e) # error_tree e"
| "error_tree (RequestError m u (Some e) p st n) = RequestError m u (Some e) p st n # error_tree e"
| "error_tree e = [e]"

fun is_permanent :: "go_error \<Rightarrow> bool" where
  "is_permanent (PermanentError e) = True"
| "is_permanent e = False"

fun is_request_error :: "go_error \<Rightarrow> bool" where
  "is_request_error (RequestError m u e p st n) = True"
| "is_request_error e = False"

text \<open>\<open>errors.Is\<close> with a sentinel, and \<open>errors.As\<close> with a pointer to an error type.\<close>

definition errors_is :: "go_error option \<Rightarrow> go_error \<Rightarrow> bool" where
  "errors_is err target = (case err of None \<Rightarrow> False | Some e \<Rightarrow> target \<in> set (error_tree e))"

definition errors_as :: "(go_error \<Rightarrow> bool) \<Rightarrow> go_error option \<Rightarrow> go_error option" where
  "errors_as p err = (case err of None \<Rightarrow> None | Some e \<Rightarrow> find p (error_tree e))"

text \<open>\<open>fmt.Errorf\<close> as the code uses it: \<open>"%w: %w"\<close>, \<open>"%w: %v"\<close> and \<open>"%w: text"\<close>, \<open>"text: %w"\<close>.\<close>

definition errorf_ww :: "go_error \<Rightarrow> go_error \<Rightarrow> go_error" where
  "errorf_ww a b = WrapError (error_text a @ '': '' @ error_text b) [a, b]"

definition errorf_wv :: "go_error \<Rightarrow> string \<Rightarrow> go_error" where
  "errorf_wv a s = WrapError (error_text a @ '': '' @ s) [a]"

definition errorf_tw :: "string \<Rightarrow> go_error \<Rightarrow> go_error" where
  "errorf_tw s a = WrapError (s @ '': '' @ error_text a) [a]"

text \<open>\<open>Permanent\<close> and the field \<open>Attempts\<close>.\<close>

definition Permanent :: "go_error option \<Rightarrow> go_error option" where
  "Permanent err = (case err of None \<Rightarrow> None | Some e \<Rightarrow> Some (PermanentError (Some e)))"

fun re_attempts :: "go_error \<Rightarrow> int" where
  "re_attempts (RequestError m u e p st n) = n"
| "re_attempts e = 0"

lemma error_tree_self [simp, intro]: "e \<in> set (error_tree e)"
  by (induction e rule: error_tree.induct) auto

lemma errors_is_None [simp]: "\<not> errors_is None t"
  by (simp add: errors_is_def)

lemma errors_is_refl [simp]: "errors_is (Some e) e"
  by (simp add: errors_is_def)

lemma errors_is_ww [simp]:
  "errors_is (Some (errorf_ww a b)) t \<longleftrightarrow>
     errorf_ww a b = t \<or> errors_is (Some a) t \<or> errors_is (Some b) t"
  by (auto simp: errors_is_def errorf_ww_def)

lemma errors_is_wv [simp]:
  "errors_is (Some (errorf_wv a s)) t \<longleftrightarrow> errorf_wv a s = t \<or> errors_is (Some a) t"
  by (auto simp: errors_is_def errorf_wv_def)

lemma errors_is_RequestError [simp]:
  "errors_is (Some (RequestError m u (Some e) p st n)) t \<longleftrightarrow>
     RequestError m u (Some e) p st n = t \<or> errors_is (Some e) t"
  by (auto simp: errors_is_def)

lemma errors_as_None [simp]: "errors_as p None = None"
  by (simp add: errors_as_def)

lemma errors_as_None_iff: "errors_as p (Some e) = None \<longleftrightarrow> (\<forall>x \<in> set (error_tree e). \<not> p x)"
  by (auto simp: errors_as_def find_None_iff)

lemma errors_as_wv:
  "\<not> p (errorf_wv a s) \<Longrightarrow> errors_as p (Some (errorf_wv a s)) = errors_as p (Some a)"
  by (simp add: errors_as_def errorf_wv_def)

lemma errors_as_Permanent: "errors_as is_permanent (Permanent (Some e)) = Some (PermanentError (Some e))"
  by (simp add: Permanent_def errors_as_def)

end
