(* ===== verification/Http.thy ===== *)
theory Http
  imports Go_Errors
begin

section \<open>The values the client passes around: contexts, headers, bodies, requests, responses\<close>

text \<open>
  What the code uses of \<open>context\<close>, \<open>io\<close> and \<open>net/http\<close>.

  A context is a value that says at which instant it will be done and with which error
  (\<open>ctx_done\<close>; the instant at which somebody will cancel the caller's context is part of the
  environment, so every theorem holds for all of them), the identities of the cancel
  functions that end it (\<open>ctx_ids\<close>), and whether it carries the bulkhead's priority mark.

  A header is a map from canonical keys to values. A body is a reader: its remaining bytes,
  the error that ends it if it does not end in \<open>EOF\<close>, and the context whose end makes reading
  fail. A request points to its header and body, because the code copies requests shallowly
  (\<open>req.WithContext\<close>) and then reads and writes both through either copy.
\<close>

subsection \<open>Contexts\<close>

record ctx =
  ctx_done :: "(instant \<times> go_error) option"
  ctx_ids :: "nat list"
  ctx_priority :: bool

text \<open>\<open>ctx.Err()\<close> at an instant.\<close>

definition ctx_err :: "ctx \<Rightarrow> instant \<Rightarrow> go_error option" where
  "ctx_err c now = (case ctx_done c of None \<Rightarrow> None | Some (t, e) \<Rightarrow> if t \<le> now then Some e else None)"

text \<open>
  \<open>context.WithTimeout(parent, d)\<close> at \<open>now\<close>: the child is done when the parent is, or at
  \<open>now + d\<close> with \<open>DeadlineExceeded\<close>, whichever is first. \<open>i\<close> identifies its cancel function.
\<close>

definition with_timeout :: "nat \<Rightarrow> instant \<Rightarrow> duration \<Rightarrow> ctx \<Rightarrow> ctx" where
  "with_timeout i now d c = c\<lparr>
     ctx_done := (case ctx_done c of
         None \<Rightarrow> Some (now + d, DeadlineExceeded)
       | Some (t, e) \<Rightarrow> if t \<le> now + d then Some (t, e) else Some (now + d, DeadlineExceeded)),
     ctx_ids := i # ctx_ids c\<rparr>"

definition ctx_background :: ctx where
  "ctx_background = \<lparr>ctx_done = None, ctx_ids = [], ctx_priority = False\<rparr>"

lemma ctx_err_mono: "ctx_err c t = Some e \<Longrightarrow> t \<le> u \<Longrightarrow> ctx_err c u = Some e"
  by (auto simp: ctx_err_def split: option.splits if_splits)

lemma ctx_err_background [simp]: "ctx_err ctx_background t = None"
  by (simp add: ctx_err_def ctx_background_def)

lemma ctx_err_with_timeout_late:
  "now + d \<le> t \<Longrightarrow> ctx_err (with_timeout i now d c) t \<noteq> None"
  by (auto simp: ctx_err_def with_timeout_def split: option.splits)

lemma ctx_err_with_timeout_parent:
  "ctx_err c t = Some e \<Longrightarrow> ctx_err (with_timeout i now d c) t \<noteq> None"
  by (auto simp: ctx_err_def with_timeout_def split: option.splits if_splits)

lemma ctx_err_with_timeout_early:
  "t < now + d \<Longrightarrow> ctx_err (with_timeout i now d c) t = ctx_err c t"
  by (auto simp: ctx_err_def with_timeout_def split: option.splits)

text \<open>
  The child's own deadline is the reason exactly when the parent was not done before it: the
  test \<open>childCtx.Err() == DeadlineExceeded && ctx.Err() == nil\<close> of the timeout policies.
\<close>

lemma child_deadline_iff:
  "ctx_err (with_timeout i now d c) t = Some DeadlineExceeded \<and> ctx_err c t = None
   \<longleftrightarrow> now + d \<le> t \<and> ctx_err c t = None"
  by (auto simp: ctx_err_def with_timeout_def split: option.splits if_splits)

subsection \<open>Headers\<close>

text \<open>
  \<open>textproto.CanonicalMIMEHeaderKey\<close>: the first letter and each letter after a hyphen in upper
  case, the others in lower case; a key with a byte that is no header-token byte is unchanged.
\<close>

definition char_code :: "char \<Rightarrow> nat" where
  "char_code c = of_char c"

definition upper_char :: "char \<Rightarrow> char" where
  "upper_char c = (if 97 \<le> char_code c \<and> char_code c \<le> 122 then char_of (char_code c - 32) else c)"

definition lower_char :: "char \<Rightarrow> char" where
  "lower_char c = (if 65 \<le> char_code c \<and> char_code c \<le> 90 then char_of (char_code c + 32) else c)"

definition token_char :: "char \<Rightarrow> bool" where
  "token_char c \<longleftrightarrow>
     (let n = char_code c in
      (48 \<le> n \<and> n \<le> 57) \<or> (65 \<le> n \<and> n \<le> 90) \<or> (97 \<le> n \<and> n \<le> 122) \<or>
      c \<in> set ''!#$%&*+-.^_|~'' \<or> n = 39 \<or> n = 96)"

fun canonical_from :: "bool \<Rightarrow> string \<Rightarrow> string" where
  "canonical_from up [] = []"
| "canonical_from up (c # cs) =
     (if up then upper_char c else lower_char c) # canonical_from (c = CHR ''-'') cs"

definition canonical_key :: "string \<Rightarrow> string" where
  "canonical_key k = (if list_all token_char k then canonical_from True k else k)"

type_synonym header = "string \<Rightarrow> string option"

text \<open>\<open>Header.Get\<close> (an absent key reads as the empty string) and \<open>Header.Set\<close>.\<close>

definition header_get :: "header \<Rightarrow> string \<Rightarrow> string" where
  "header_get h k = (case h (canonical_key k) of None \<Rightarrow> '''' | Some v \<Rightarrow> v)"

definition header_set :: "header \<Rightarrow> string \<Rightarrow> string \<Rightarrow> header" where
  "header_set h k v = h(canonical_key k \<mapsto> v)"

lemma header_get_set [simp]: "header_get (header_set h k v) k = v"
  by (simp add: header_get_def header_set_def)

lemma header_get_set_other:
  "canonical_key k \<noteq> canonical_key l \<Longrightarrow> header_get (header_set h k v) l = header_get h l"
  by (simp add: header_get_def header_set_def)

subsection \<open>Bodies\<close>

record reader =
  rd_data :: bytes
  rd_fail :: "go_error option"
  rd_ctx :: "ctx option"
  rd_nop_close :: bool
  rd_closed :: bool

text \<open>\<open>io.NopCloser(bytes.NewReader(b))\<close>.\<close>

definition bytes_reader :: "bytes \<Rightarrow> reader" where
  "bytes_reader b = \<lparr>rd_data = b, rd_fail = None, rd_ctx = None, rd_nop_close = True, rd_closed = False\<rparr>"

definition close_reader :: "reader \<Rightarrow> reader" where
  "close_reader r = (if rd_nop_close r then r else r\<lparr>rd_closed := True\<rparr>)"

subsection \<open>Requests and responses\<close>

record request =
  rq_method :: string
  rq_url :: string
  rq_path :: string
  rq_header :: nat
  rq_body :: "nat option"
  rq_get_body :: "bytes option"
  rq_content_length :: int
  rq_ctx :: ctx

record response =
  rs_status :: int
  rs_header :: header
  rs_body :: "nat option"
  rs_content_length :: int

abbreviation MethodGet :: string where "MethodGet \<equiv> ''GET''"
abbreviation MethodHead :: string where "MethodHead \<equiv> ''HEAD''"
abbreviation MethodPost :: string where "MethodPost \<equiv> ''POST''"
abbreviation MethodPut :: string where "MethodPut \<equiv> ''PUT''"
abbreviation MethodPatch :: string where "MethodPatch \<equiv> ''PATCH''"
abbreviation MethodDelete :: string where "MethodDelete \<equiv> ''DELETE''"
abbreviation MethodOptions :: string where "MethodOptions \<equiv> ''OPTIONS''"
abbreviation MethodTrace :: string where "MethodTrace \<equiv> ''TRACE''"

abbreviation StatusTooManyRequests :: int where "StatusTooManyRequests \<equiv> 429"
abbreviation StatusServiceUnavailable :: int where "StatusServiceUnavailable \<equiv> 503"

text \<open>
  What a call comes to: a value, a panic that unwinds through the callers with its value's
  text, or \<open>Blocked\<close>, a goroutine that waits for ever. A call of a policy function has as its
  value a response and an error; either may be nil, and nothing keeps both from being non-nil.
\<close>

datatype 'a result =
    Returned 'a
  | Panicked string
  | Blocked

type_synonym reply = "response option \<times> go_error option"
type_synonym outcome = "reply result"

end
