(* ===== verification/Cache_Store.thy ===== *)
theory Cache_Store
  imports Http "HOL-Library.AList"
begin

section \<open>The response cache's table: \<open>cache.go\<close>\<close>

text \<open>
  The table is an association list with distinct keys; Go's iteration order over a map is the
  argument \<open>order\<close> of the eviction loop, any list of the keys. \<open>cache_lookup\<close> and \<open>cache_store\<close>
  are the two locked sections of \<open>CachePolicy.Execute\<close>. The clock is read before the eviction
  loop (\<open>now1\<close>) and again for the new entry (\<open>now2\<close>).
\<close>

record cache_entry =
  ce_resp :: response
  ce_body :: bytes
  ce_createdAt :: instant

record cache_config =
  TTL :: duration
  MaxEntries :: int
  Methods :: "string list"

type_synonym cache_table = "(string \<times> cache_entry) list"

definition cache_defaults :: "cache_config \<Rightarrow> cache_config" where
  "cache_defaults cfg =
     (let cfg = (if TTL cfg = 0 then cfg\<lparr>TTL := 5 * minute\<rparr> else cfg);
          cfg = (if MaxEntries cfg = 0 then cfg\<lparr>MaxEntries := 1000\<rparr> else cfg);
          cfg = (if Methods cfg = [] then cfg\<lparr>Methods := [MethodGet, MethodHead]\<rparr> else cfg)
      in cfg)"

definition is_cacheable :: "cache_config \<Rightarrow> string \<Rightarrow> bool" where
  "is_cacheable cfg meth = list_ex (\<lambda>m. m = meth) (Methods cfg)"

definition cache_key :: "string \<Rightarrow> string \<Rightarrow> string" where
  "cache_key meth url = meth @ '' '' @ url"

definition cache_lookup :: "cache_config \<Rightarrow> instant \<Rightarrow> string \<Rightarrow> cache_table \<Rightarrow> cache_entry option" where
  "cache_lookup cfg now key m =
     (case map_of m key of
        None \<Rightarrow> None
      | Some e \<Rightarrow> if now - ce_createdAt e < TTL cfg then Some e else None)"

fun find_oldest :: "cache_table \<Rightarrow> string list \<Rightarrow> string \<Rightarrow> instant \<Rightarrow> string" where
  "find_oldest m [] oldest oldestTime = oldest"
| "find_oldest m (k # ks) oldest oldestTime =
     (case map_of m k of
        None \<Rightarrow> find_oldest m ks oldest oldestTime
      | Some v \<Rightarrow> if ce_createdAt v < oldestTime then find_oldest m ks k (ce_createdAt v)
                  else find_oldest m ks oldest oldestTime)"

definition cache_evict :: "cache_config \<Rightarrow> instant \<Rightarrow> string list \<Rightarrow> cache_table \<Rightarrow> cache_table" where
  "cache_evict cfg now order m =
     (if int (length m) \<ge> MaxEntries cfg
      then (let oldest = find_oldest m order '''' now
            in if oldest \<noteq> '''' then AList.delete oldest m else m)
      else m)"

definition cache_store ::
  "cache_config \<Rightarrow> instant \<Rightarrow> instant \<Rightarrow> string list \<Rightarrow> string \<Rightarrow> response \<Rightarrow> bytes \<Rightarrow>
   cache_table \<Rightarrow> cache_table" where
  "cache_store cfg now1 now2 order key resp body m =
     AList.update key \<lparr>ce_resp = resp, ce_body = body, ce_createdAt = now2\<rparr> (cache_evict cfg now1 order m)"

lemmas cache_ops [state_defs] = cache_lookup_def cache_evict_def cache_store_def

subsection \<open>Eviction\<close>

lemma cache_key_inject:
  "CHR '' '' \<notin> set m \<Longrightarrow> CHR '' '' \<notin> set m' \<Longrightarrow> cache_key m u = cache_key m' u' \<Longrightarrow> m = m' \<and> u = u'"
proof -
  assume sp: "CHR '' '' \<notin> set m" "CHR '' '' \<notin> set m'" and eq: "cache_key m u = cache_key m' u'"
  have t: "takeWhile (\<lambda>c. c \<noteq> CHR '' '') (cache_key n v) = n" if "CHR '' '' \<notin> set n" for n v
    using that unfolding cache_key_def by (subst takeWhile_append2) auto
  from t [OF sp(1), of u] t [OF sp(2), of u'] eq have "m = m'" by simp
  with eq show "m = m' \<and> u = u'" by (simp add: cache_key_def)
qed

lemma cache_key_not_Nil [simp]: "cache_key m u \<noteq> ''''"
  by (simp add: cache_key_def)

text \<open>The key found is one of the oldest entries that are older than the bound.\<close>

lemma find_oldest_spec:
  "find_oldest m ks old t = old \<and> (\<forall>k \<in> set ks. \<forall>e. map_of m k = Some e \<longrightarrow> t \<le> ce_createdAt e) \<or>
   (\<exists>e. find_oldest m ks old t \<in> set ks \<and> map_of m (find_oldest m ks old t) = Some e \<and>
     ce_createdAt e < t \<and> (\<forall>k \<in> set ks. \<forall>e'. map_of m k = Some e' \<longrightarrow> ce_createdAt e \<le> ce_createdAt e'))"
proof (induction ks arbitrary: old t)
  case (Cons k ks)
  show ?case
  proof (cases "map_of m k")
    case None
    with Cons.IH [of old t] show ?thesis by auto
  next
    case (Some v)
    show ?thesis
    proof (cases "ce_createdAt v < t")
      case True
      with Some Cons.IH [of k "ce_createdAt v"] show ?thesis by fastforce
    next
      case False
      with Some Cons.IH [of old t] show ?thesis by fastforce
    qed
  qed
qed simp

definition cache_ok :: "cache_table \<Rightarrow> bool" where
  "cache_ok m \<longleftrightarrow> distinct (map fst m) \<and> '''' \<notin> fst ` set m"

lemma length_delete_key:
  "distinct (map fst m) \<Longrightarrow> k \<in> fst ` set m \<Longrightarrow> length m = Suc (length (AList.delete k m))"
proof (induction m)
  case (Cons a m)
  show ?case
  proof (cases "fst a = k")
    case True
    with Cons.prems have "AList.delete k m = m" by (intro AList.delete_id) auto
    with True show ?thesis by simp
  next
    case False
    with Cons show ?thesis by auto
  qed
qed simp

lemma length_update_key:
  "length (AList.update k v m) = (if k \<in> fst ` set m then length m else Suc (length m))"
  by (induction m) auto

lemma map_of_key: "distinct (map fst m) \<Longrightarrow> k \<in> fst ` set m \<Longrightarrow> \<exists>e. map_of m k = Some e"
  by (metis map_of_eq_None_iff not_None_eq)

lemma cache_evict_room:
  assumes ok: "cache_ok m" and order: "set order = fst ` set m"
    and size: "int (length m) \<le> MaxEntries cfg" and max: "1 \<le> MaxEntries cfg"
    and older: "\<forall>(k, e) \<in> set m. ce_createdAt e < now"
  shows "int (length (cache_evict cfg now order m)) < MaxEntries cfg"
proof (cases "int (length m) \<ge> MaxEntries cfg")
  case False
  then show ?thesis by (simp add: cache_evict_def)
next
  case True
  let ?o = "find_oldest m order '''' now"
  from True max obtain k e where ke: "(k, e) \<in> set m"
    by (cases m) auto
  then have "k \<in> set order" "map_of m k = Some e" "ce_createdAt e < now"
    using order ok older by (force simp: cache_ok_def)+
  then have o: "?o \<in> set order"
    using find_oldest_spec [of m order "''''" now] by force
  then have "?o \<noteq> ''''" using ok order unfolding cache_ok_def by metis
  with True have "cache_evict cfg now order m = AList.delete ?o m"
    by (simp add: cache_evict_def Let_def)
  with length_delete_key [of m ?o] o order ok size show ?thesis
    by (simp add: cache_ok_def)
qed

lemma cache_ok_delete: "cache_ok m \<Longrightarrow> cache_ok (AList.delete k m)"
  using AList.distinct_delete [of m k] AList.dom_delete_subset [of k m]
  unfolding cache_ok_def by blast

lemma cache_evict_ok: "cache_ok m \<Longrightarrow> cache_ok (cache_evict cfg now order m)"
  by (simp add: cache_evict_def Let_def cache_ok_delete)

lemma cache_store_ok:
  "cache_ok m \<Longrightarrow> key \<noteq> '''' \<Longrightarrow> cache_ok (cache_store cfg now1 now2 order key resp body m)"
  using cache_evict_ok [of m cfg now1 order]
  by (simp add: cache_ok_def cache_store_def AList.distinct_update AList.dom_update)

lemma cache_store_size:
  assumes "cache_ok m" and "set order = fst ` set m"
    and "int (length m) \<le> MaxEntries cfg" and "1 \<le> MaxEntries cfg"
    and "\<forall>(k, e) \<in> set m. ce_createdAt e < now1"
  shows "int (length (cache_store cfg now1 now2 order key resp body m)) \<le> MaxEntries cfg"
  using cache_evict_room [OF assms] by (simp add: cache_store_def length_update_key)

text \<open>What is evicted is an entry created first, whatever was looked up since.\<close>

lemma cache_evict_oldest:
  assumes ok: "cache_ok m" and order: "set order = fst ` set m"
    and e: "map_of m k = Some e" and gone: "map_of (cache_evict cfg now order m) k = None"
  shows "\<forall>k' e'. map_of m k' = Some e' \<longrightarrow> ce_createdAt e \<le> ce_createdAt e'"
proof -
  let ?o = "find_oldest m order '''' now"
  have k: "k = ?o" and ne: "?o \<noteq> ''''"
    using e gone by (auto simp: cache_evict_def Let_def AList.delete_conv split: if_splits)
  have keys: "k' \<in> set order" if "map_of m k' = Some e'" for k' e'
    using that order by (force dest: map_of_SomeD)
  from find_oldest_spec [of m order "''''" now] ne k e keys show ?thesis by fastforce
qed

subsection \<open>The table as a store with a time to live\<close>

text \<open>
  What the caching policy promises, as an interface: what is read is what was stored last under
  the key, no longer ago than the time to live; storing under one key never makes another key
  readable.
\<close>

locale ttl_store =
  fixes get :: "instant \<Rightarrow> 'k \<Rightarrow> 'm \<Rightarrow> 'v option"
    and put :: "'x \<Rightarrow> instant \<Rightarrow> 'k \<Rightarrow> 'v \<Rightarrow> 'm \<Rightarrow> 'm"
    and start :: 'm
    and ttl :: duration
  assumes get_start: "get t k start = None"
    and get_put_same: "get t k (put x now k v m) = (if t - now < ttl then Some v else None)"
    and get_put_other: "k \<noteq> k' \<Longrightarrow> get t k' (put x now k v m) = Some w \<Longrightarrow> get t k' m = Some w"
begin

text \<open>The puts with the latest first: a hit is the latest put under the key, and not too old.\<close>

lemma hit_is_latest_put:
  "get t k (foldr (\<lambda>(x, now, k, v). put x now k v) ps start) = Some v \<Longrightarrow>
   \<exists>x now. find (\<lambda>(_, _, k', _). k' = k) ps = Some (x, now, k, v) \<and> t - now < ttl"
proof (induction ps)
  case (Cons p ps)
  obtain x now k' v' where p: "p = (x, now, k', v')" by (cases p)
  show ?case
  proof (cases "k' = k")
    case True
    with Cons.prems p show ?thesis by (simp add: get_put_same split: if_splits)
  next
    case False
    with Cons p show ?thesis by (auto dest: get_put_other)
  qed
qed (simp add: get_start)

end

lemma cache_evict_get: "map_of (cache_evict cfg now order m) k = Some e \<Longrightarrow> map_of m k = Some e"
  by (auto simp: cache_evict_def Let_def AList.delete_conv split: if_splits)

text \<open>A put of the policy: the instant of the eviction and the order of its loop come with it.\<close>

definition cache_put ::
  "cache_config \<Rightarrow> instant \<times> string list \<Rightarrow> instant \<Rightarrow> string \<Rightarrow> response \<times> bytes \<Rightarrow>
   cache_table \<Rightarrow> cache_table" where
  "cache_put cfg x now k v m = cache_store cfg (fst x) now (snd x) k (fst v) (snd v) m"

definition cache_get :: "cache_config \<Rightarrow> instant \<Rightarrow> string \<Rightarrow> cache_table \<Rightarrow> (response \<times> bytes) option" where
  "cache_get cfg now k m = map_option (\<lambda>e. (ce_resp e, ce_body e)) (cache_lookup cfg now k m)"

interpretation cache: ttl_store "cache_get cfg" "cache_put cfg" "[]" "TTL cfg" for cfg
proof unfold_locales
  fix t k x now v m
  show "cache_get cfg t k (cache_put cfg x now k v m) = (if t - now < TTL cfg then Some v else None)"
    by (simp add: cache_get_def cache_put_def cache_lookup_def cache_store_def AList.update_conv)
next
  fix k k' t x now v m w
  assume "k \<noteq> k'" and "cache_get cfg t k' (cache_put cfg x now k v m) = Some w"
  then show "cache_get cfg t k' m = Some w"
    by (auto simp: cache_get_def cache_put_def cache_lookup_def cache_store_def AList.update_conv
        dest!: cache_evict_get split: option.splits if_splits)
qed (simp add: cache_get_def cache_lookup_def)

text \<open>Methods contain no space, so a key belongs to one method and URL.\<close>

lemma find_cache_key:
  assumes "CHR '' '' \<notin> set meth" and "\<And>x now m u v. (x, now, (m, u), v) \<in> set ps \<Longrightarrow> CHR '' '' \<notin> set m"
    and "find (\<lambda>(_, _, k', _). k' = cache_key meth url) (map (\<lambda>(x, now, (m, u), v). (x, now, cache_key m u, v)) ps)
      = Some (x, now, k, v)"
  shows "find (\<lambda>(_, _, mu, _). mu = (meth, url)) ps = Some (x, now, (meth, url), v)"
  using assms(2,3)
proof (induction ps)
  case (Cons p ps)
  obtain x' now' m' u' v' where p: "p = (x', now', (m', u'), v')" by (metis surj_pair)
  have "CHR '' '' \<notin> set m'" using Cons.prems(1) p by force
  then have same: "cache_key m' u' = cache_key meth url \<longleftrightarrow> m' = meth \<and> u' = url"
    using cache_key_inject [OF _ assms(1)] by blast
  have "find (\<lambda>(_, _, k', _). k' = cache_key meth url) (map (\<lambda>(x, now, (m, u), v). (x, now, cache_key m u, v)) ps)
      = Some (x, now, k, v) \<Longrightarrow> find (\<lambda>(_, _, mu, _). mu = (meth, url)) ps = Some (x, now, (meth, url), v)"
    using Cons.IH Cons.prems(1) by (meson list.set_intros(2))
  with same Cons.prems(2) p show ?case by (auto split: if_splits)
qed simp

lemma cache_hit_of_request:
  assumes "cache_get cfg t (cache_key meth url)
      (foldr (\<lambda>(x, now, (m, u), v). cache_put cfg x now (cache_key m u) v) ps []) = Some v"
    and "CHR '' '' \<notin> set meth" and "\<And>x now m u v. (x, now, (m, u), v) \<in> set ps \<Longrightarrow> CHR '' '' \<notin> set m"
  shows "\<exists>x now. find (\<lambda>(_, _, mu, _). mu = (meth, url)) ps = Some (x, now, (meth, url), v) \<and>
    t - now < TTL cfg"
proof -
  let ?qs = "map (\<lambda>(x, now, (m, u), v). (x, now, cache_key m u, v)) ps"
  have "foldr (\<lambda>(x, now, (m, u), v). cache_put cfg x now (cache_key m u) v) ps [] =
      foldr (\<lambda>(x, now, k, v). cache_put cfg x now k v) ?qs []"
    by (induction ps) auto
  with assms(1) obtain x now where "find (\<lambda>(_, _, k', _). k' = cache_key meth url) ?qs
      = Some (x, now, cache_key meth url, v)" and "t - now < TTL cfg"
    using cache.hit_is_latest_put [of cfg t "cache_key meth url" ?qs v] by auto
  with find_cache_key [of meth ps url, OF assms(2)] assms(3) show ?thesis by blast
qed

end
