(* ===== verification/Cache_Conc.thy ===== *)
theory Cache_Conc
  imports Cache_Store
begin

section \<open>The cache under concurrent requests: \<open>cache.go\<close>\<close>

text \<open>
  \<open>CachePolicy.Execute\<close> run by any number of goroutines, one cacheable request each: caller \<open>i\<close> asks
  for the method and URL \<open>reqs i\<close>. A step is the lookup under the read lock, the test of the entry's age by a clock read
  later, the return of \<open>next\<close> with what could be read of the body, or the section under the write
  lock. That section reads the clock twice, before the eviction and for the new entry; with \<open>fine\<close>
  set the first reading is later than every earlier one.

  The invariants: the table is what the stores so far make of it, a hit is the latest of them under
  the caller's key, and the size stays within \<open>MaxEntries\<close> if the clock is fine enough.
\<close>

type_synonym cached = "response \<times> bytes"

datatype ca_pc =
    CaStart
  | CaRead "cache_entry option"   \<comment> \<open>the entry found, before the test of its age\<close>
  | CaMissed
  | CaFetched cached              \<comment> \<open>\<open>next\<close> has returned a response\<close>
  | CaPassed                      \<comment> \<open>\<open>next\<close> has returned an error or nothing\<close>
  | CaServed cached

record ca_sys =
  ca_table :: cache_table
  ca_now :: instant
  ca_pc :: "nat \<Rightarrow> ca_pc"

datatype ca_label =
    CaClock duration
  | CaLookup nat
  | CaHit nat cached
  | CaMiss nat
  | CaPass nat
  | CaFetch nat cached
  | CaStore nat instant instant "string list" cached

definition ca_goto :: "nat \<Rightarrow> ca_pc \<Rightarrow> ca_sys \<Rightarrow> ca_sys" where
  "ca_goto i pc s = s\<lparr>ca_pc := (ca_pc s)(i := pc)\<rparr>"

definition ca_key :: "(nat \<Rightarrow> string \<times> string) \<Rightarrow> nat \<Rightarrow> string" where
  "ca_key reqs i = cache_key (fst (reqs i)) (snd (reqs i))"

inductive ca_step :: "cache_config \<Rightarrow> (nat \<Rightarrow> string \<times> string) \<Rightarrow> bool \<Rightarrow> ca_sys \<Rightarrow> ca_label \<Rightarrow> ca_sys \<Rightarrow> bool"
  for cfg :: cache_config and reqs :: "nat \<Rightarrow> string \<times> string" and fine :: bool
where
  ca_clock: "0 \<le> d \<Longrightarrow> ca_step cfg reqs fine s (CaClock d) (s\<lparr>ca_now := ca_now s + d\<rparr>)"
| ca_lookup: "ca_pc s i = CaStart \<Longrightarrow>
    ca_step cfg reqs fine s (CaLookup i) (ca_goto i (CaRead (map_of (ca_table s) (ca_key reqs i))) s)"
| ca_hit: "ca_pc s i = CaRead (Some e) \<Longrightarrow> ca_now s - ce_createdAt e < TTL cfg \<Longrightarrow>
    ca_step cfg reqs fine s (CaHit i (ce_resp e, ce_body e)) (ca_goto i (CaServed (ce_resp e, ce_body e)) s)"
| ca_stale: "ca_pc s i = CaRead (Some e) \<Longrightarrow> \<not> ca_now s - ce_createdAt e < TTL cfg \<Longrightarrow>
    ca_step cfg reqs fine s (CaMiss i) (ca_goto i CaMissed s)"
| ca_absent: "ca_pc s i = CaRead None \<Longrightarrow> ca_step cfg reqs fine s (CaMiss i) (ca_goto i CaMissed s)"
| ca_pass: "ca_pc s i = CaMissed \<Longrightarrow> ca_step cfg reqs fine s (CaPass i) (ca_goto i CaPassed s)"
| ca_fetch: "ca_pc s i = CaMissed \<Longrightarrow> ca_step cfg reqs fine s (CaFetch i v) (ca_goto i (CaFetched v) s)"
| ca_store: "ca_pc s i = CaFetched v \<Longrightarrow> ca_now s \<le> now1 \<Longrightarrow> now1 \<le> now2 \<Longrightarrow> fine \<longrightarrow> ca_now s < now1 \<Longrightarrow>
    set order = fst ` set (ca_table s) \<Longrightarrow>
    ca_step cfg reqs fine s (CaStore i now1 now2 order v)
      (ca_goto i (CaServed v) (s\<lparr>ca_now := now2, ca_table :=
         cache_store cfg now1 now2 order (ca_key reqs i) (fst v) (snd v) (ca_table s)\<rparr>))"

definition ca_init :: "ca_sys \<Rightarrow> bool" where
  "ca_init s \<longleftrightarrow> ca_table s = [] \<and> ca_pc s = (\<lambda>_. CaStart)"

subsection \<open>The size of the table\<close>

definition ca_dated :: "ca_sys \<Rightarrow> bool" where
  "ca_dated s \<longleftrightarrow> cache_ok (ca_table s) \<and> (\<forall>(k, e) \<in> set (ca_table s). ce_createdAt e \<le> ca_now s)"

definition ca_sized :: "cache_config \<Rightarrow> ca_sys \<Rightarrow> bool" where
  "ca_sized cfg s \<longleftrightarrow> ca_dated s \<and> int (length (ca_table s)) \<le> MaxEntries cfg"

lemma evict_subset: "set (cache_evict cfg now order m) \<subseteq> set m"
  by (auto simp: cache_evict_def Let_def AList.delete_eq)

lemma update_member: "x \<in> set (AList.update k v m) \<Longrightarrow> x = (k, v) \<or> x \<in> set m"
  by (induction m) (auto split: if_splits)

lemma store_member:
  "(k, e) \<in> set (cache_store cfg now1 now2 order key resp body m) \<Longrightarrow> ce_createdAt e = now2 \<or> (k, e) \<in> set m"
  using evict_subset [of cfg now1 order m] by (auto simp: cache_store_def dest: update_member)

lemma ca_step_dated:
  assumes "ca_step cfg reqs fine s l s'" and "ca_dated s"
  shows "ca_dated s'"
  using assms
proof cases
  case (ca_store i v now1 now2 order)
  have "ca_key reqs i \<noteq> ''''" by (simp add: ca_key_def)
  then have "cache_ok (ca_table s')"
    using assms(2) ca_store by (auto simp: ca_dated_def ca_goto_def intro: cache_store_ok)
  moreover have "ce_createdAt e \<le> now2" if "(k, e) \<in> set (ca_table s')" for k e
    using store_member [of k e cfg now1 now2 order] that assms(2) ca_store
    by (fastforce simp: ca_dated_def ca_goto_def)
  ultimately show ?thesis using ca_store by (auto simp: ca_dated_def ca_goto_def)
qed (auto simp: ca_dated_def ca_goto_def)

interpretation ca_fine: invariant_system
  "\<lambda>s. 1 \<le> MaxEntries cfg \<and> ca_init s" "ca_step cfg reqs True" "\<lambda>s. 1 \<le> MaxEntries cfg \<and> ca_sized cfg s" for cfg reqs
proof unfold_locales
  fix s l s' assume inv: "1 \<le> MaxEntries cfg \<and> ca_sized cfg s" and st: "ca_step cfg reqs True s l s'"
  then have dated: "ca_dated s'" using ca_step_dated by (auto simp: ca_sized_def)
  from st have "int (length (ca_table s')) \<le> MaxEntries cfg"
  proof cases
    case (ca_store i v now1 now2 order)
    have "\<forall>(k, e) \<in> set (ca_table s). ce_createdAt e < now1"
      using inv ca_store by (fastforce simp: ca_sized_def ca_dated_def)
    with inv ca_store show ?thesis
      by (auto simp: ca_sized_def ca_dated_def ca_goto_def intro: cache_store_size)
  qed (use inv in \<open>simp_all add: ca_sized_def ca_goto_def\<close>)
  with inv dated show "1 \<le> MaxEntries cfg \<and> ca_sized cfg s'" by (simp add: ca_sized_def)
qed (auto simp: ca_init_def ca_sized_def ca_dated_def cache_ok_def)

text \<open>What a store removes from the table is an entry created first, whatever was looked up since.\<close>

lemma ca_step_evicts_oldest:
  assumes "ca_step cfg reqs fine u l t" and "ca_dated u"
    and "map_of (ca_table u) k = Some e" and "map_of (ca_table t) k = None" and "map_of (ca_table u) k' = Some e'"
  shows "ce_createdAt e \<le> ce_createdAt e'"
  using assms(1)
proof cases
  case (ca_store i v now1 now2 order)
  then have "map_of (cache_evict cfg now1 order (ca_table u)) k = None"
    using assms(4) by (auto simp: ca_goto_def cache_store_def AList.update_conv split: if_splits)
  then show ?thesis
    using cache_evict_oldest [of "ca_table u" order k e cfg now1] assms(2,3,5) ca_store by (simp add: ca_dated_def)
qed (use assms in \<open>simp_all add: ca_goto_def\<close>)

interpretation ca_always: invariant_system ca_init "ca_step cfg reqs fine" ca_dated for cfg reqs fine
  by unfold_locales (simp add: ca_init_def ca_dated_def cache_ok_def, rule ca_step_dated)

subsection \<open>What a hit returns\<close>

text \<open>The stores of a run, the latest first, and the table they make.\<close>

type_synonym ca_stored = "(instant \<times> string list) \<times> instant \<times> (string \<times> string) \<times> cached"

fun ca_put :: "(nat \<Rightarrow> string \<times> string) \<Rightarrow> ca_label \<Rightarrow> ca_stored list" where
  "ca_put reqs (CaStore i now1 now2 order v) = [((now1, order), now2, reqs i, v)]"
| "ca_put reqs l = []"

definition ca_puts :: "(nat \<Rightarrow> string \<times> string) \<Rightarrow> ca_label list \<Rightarrow> ca_stored list" where
  "ca_puts reqs ls = rev (concat (map (ca_put reqs) ls))"

definition table_of :: "cache_config \<Rightarrow> ca_stored list \<Rightarrow> cache_table" where
  "table_of cfg ps = foldr (\<lambda>(x, now, (m, u), v). cache_put cfg x now (cache_key m u) v) ps []"

lemma ca_run_table:
  "run (ca_step cfg reqs fine) s ls t \<Longrightarrow> ca_init s \<Longrightarrow> ca_table t = table_of cfg (ca_puts reqs ls)"
proof (induction ls arbitrary: t rule: rev_induct)
  case Nil
  then show ?case by (simp add: ca_init_def ca_puts_def table_of_def)
next
  case (snoc l ls)
  then obtain u where u: "run (ca_step cfg reqs fine) s ls u" "ca_step cfg reqs fine u l t"
    by (auto simp: run_append_iff run_Cons_iff)
  from snoc.IH [OF u(1) snoc.prems(2)] have tab: "ca_table u = table_of cfg (ca_puts reqs ls)" .
  from u(2) show ?case
    using tab
    by cases (simp_all add: ca_puts_def table_of_def ca_goto_def ca_key_def cache_put_def case_prod_beta)
qed

text \<open>A caller between its lookup and the test holds what the table had when it looked.\<close>

lemma ca_run_read:
  assumes "run (ca_step cfg reqs fine) s ls t" and "ca_init s" and "ca_pc t i = CaRead x"
  shows "\<exists>ls1 ls2. ls = ls1 @ CaLookup i # ls2 \<and> x = map_of (table_of cfg (ca_puts reqs ls1)) (ca_key reqs i)"
  using assms(1,3)
proof (induction ls arbitrary: t rule: rev_induct)
  case Nil
  with assms(2) show ?case by (simp add: ca_init_def)
next
  case (snoc l ls)
  then obtain u where u: "run (ca_step cfg reqs fine) s ls u" "ca_step cfg reqs fine u l t"
    by (auto simp: run_append_iff run_Cons_iff)
  show ?case
  proof (cases "ca_pc u i = CaRead x")
    case True
    with snoc.IH [OF u(1)] show ?thesis by (metis append.assoc append_Cons)
  next
    case False
    from u(2) False snoc.prems(2) have "l = CaLookup i \<and> x = map_of (ca_table u) (ca_key reqs i)"
      by cases (auto simp: ca_goto_def split: if_splits)
    with ca_run_table [OF u(1) assms(2)] show ?thesis by auto
  qed
qed

inductive_cases ca_hitE: "ca_step cfg reqs fine s (CaHit i v) s'"

lemma ca_put_request: "(x, now, r, w) \<in> set (ca_put reqs l) \<Longrightarrow> r \<in> range reqs"
  by (cases l) auto

lemma ca_puts_requests: "(x, now, r, w) \<in> set (ca_puts reqs ls) \<Longrightarrow> r \<in> range reqs"
  by (auto simp: ca_puts_def dest: ca_put_request)

lemma ca_hit_latest:
  assumes "ca_init s" and "run (ca_step cfg reqs fine) s (ls @ [CaHit i v]) t"
    and "\<And>j. CHR '' '' \<notin> set (fst (reqs j))"
  shows "\<exists>ls1 ls2 x now. ls = ls1 @ CaLookup i # ls2 \<and>
    find (\<lambda>(_, _, r, _). r = reqs i) (ca_puts reqs ls1) = Some (x, now, reqs i, v) \<and> ca_now t - now < TTL cfg"
proof -
  obtain u where u: "run (ca_step cfg reqs fine) s ls u" "ca_step cfg reqs fine u (CaHit i v) t"
    using assms(2) by (auto simp: run_append_iff run_Cons_iff)
  from u(2) obtain e where e: "ca_pc u i = CaRead (Some e)" "ca_now u - ce_createdAt e < TTL cfg"
    "v = (ce_resp e, ce_body e)" "ca_now t = ca_now u"
    by (elim ca_hitE) (auto simp: ca_goto_def)
  obtain ls1 ls2 where ls: "ls = ls1 @ CaLookup i # ls2"
    "map_of (table_of cfg (ca_puts reqs ls1)) (ca_key reqs i) = Some e"
    using ca_run_read [OF u(1) assms(1) e(1)] by metis
  have hit: "cache_get cfg (ca_now u) (cache_key (fst (reqs i)) (snd (reqs i)))
      (foldr (\<lambda>(x, now, (m, u), v). cache_put cfg x now (cache_key m u) v) (ca_puts reqs ls1) []) = Some v"
    using ls(2) e(2,3) by (simp add: cache_get_def cache_lookup_def table_of_def ca_key_def)
  have nosp: "CHR '' '' \<notin> set m" if "(x, now, (m, u), w) \<in> set (ca_puts reqs ls1)" for x now m u w
    using ca_puts_requests [OF that] assms(3) by (metis fst_conv imageE)
  obtain x now where "find (\<lambda>(_, _, mu, _). mu = (fst (reqs i), snd (reqs i))) (ca_puts reqs ls1)
      = Some (x, now, (fst (reqs i), snd (reqs i)), v)" "ca_now u - now < TTL cfg"
    using cache_hit_of_request [OF hit assms(3)] nosp by (metis (no_types, lifting))
  with ls(1) e(4) show ?thesis by (metis prod.collapse)
qed

subsection \<open>What the cache does not do\<close>

lemma ca_goto_simps [simp]:
  "ca_pc (ca_goto i pc s) i = pc" "ca_table (ca_goto i pc s) = ca_table s" "ca_now (ca_goto i pc s) = ca_now s"
  by (simp_all add: ca_goto_def)

text \<open>Requests for one key that miss together are all sent.\<close>

lemma ca_each:
  assumes "distinct is" and "\<And>i. i \<in> set is \<Longrightarrow> ca_pc s i = pc"
    and "\<And>u i. ca_table u = ca_table s \<Longrightarrow> ca_pc u i = pc \<Longrightarrow> ca_step cfg reqs fine u (l i) (ca_goto i (pc' i) u)"
  shows "run (ca_step cfg reqs fine) s (map l is) (s\<lparr>ca_pc := \<lambda>i. if i \<in> set is then pc' i else ca_pc s i\<rparr>)"
  using assms
proof (induction "is" arbitrary: s)
  case Nil
  then show ?case by simp
next
  case (Cons i "is")
  let ?u = "ca_goto i (pc' i) s"
  have "ca_step cfg reqs fine s (l i) ?u" using Cons.prems by simp
  moreover have "run (ca_step cfg reqs fine) ?u (map l is) (?u\<lparr>ca_pc := \<lambda>j. if j \<in> set is then pc' j else ca_pc ?u j\<rparr>)"
    using Cons.prems by (intro Cons.IH) (auto simp: ca_goto_def)
  moreover have "?u\<lparr>ca_pc := \<lambda>j. if j \<in> set is then pc' j else ca_pc ?u j\<rparr>
      = s\<lparr>ca_pc := \<lambda>j. if j \<in> set (i # is) then pc' j else ca_pc s j\<rparr>"
    using Cons.prems(1) by (auto simp: ca_goto_def fun_eq_iff)
  ultimately show ?case by auto
qed

lemma ca_stampede:
  assumes "ca_init s"
  shows "\<exists>t. run (ca_step cfg reqs fine) s
    (map CaLookup [0..<n] @ map CaMiss [0..<n] @ map (\<lambda>i. CaFetch i (v i)) [0..<n]) t"
proof -
  let ?at = "\<lambda>pc. s\<lparr>ca_pc := \<lambda>i. if i \<in> set [0..<n] then pc else CaStart\<rparr>"
  have s: "ca_table s = []" "\<And>i. ca_pc s i = CaStart" using assms by (simp_all add: ca_init_def)
  have look: "ca_table u = [] \<Longrightarrow> ca_pc u i = CaStart \<Longrightarrow>
      ca_step cfg reqs fine u (CaLookup i) (ca_goto i (CaRead None) u)" for u i
    using ca_lookup [of u i cfg reqs fine] by simp
  have "run (ca_step cfg reqs fine) s (map CaLookup [0..<n]) (?at (CaRead None))"
    using ca_each [of "[0..<n]" s CaStart cfg reqs fine CaLookup "\<lambda>_. CaRead None"] s look
    by (simp cong: if_cong)
  moreover have "run (ca_step cfg reqs fine) (?at (CaRead None)) (map CaMiss [0..<n]) (?at CaMissed)"
    using ca_each [of "[0..<n]" "?at (CaRead None)" "CaRead None" cfg reqs fine CaMiss "\<lambda>_. CaMissed"]
    by (simp add: ca_absent cong: if_cong)
  moreover have "\<exists>t. run (ca_step cfg reqs fine) (?at CaMissed) (map (\<lambda>i. CaFetch i (v i)) [0..<n]) t"
    using ca_each [of "[0..<n]" "?at CaMissed" CaMissed cfg reqs fine "\<lambda>i. CaFetch i (v i)" "\<lambda>i. CaFetched (v i)"]
    by (force simp: ca_fetch)
  ultimately show ?thesis by (meson run_append)
qed

text \<open>
  While the clock stands still no entry is old enough to be evicted, so callers with different
  keys fill the table beyond every bound.
\<close>

lemma evict_same_instant:
  "\<forall>(k, e) \<in> set m. now \<le> ce_createdAt e \<Longrightarrow> cache_evict cfg now order m = m"
  using find_oldest_spec [of m order "''''" now]
  by (fastforce simp: cache_evict_def Let_def dest: map_of_SomeD)

lemma ca_fills:
  assumes "ca_init s" and "inj (ca_key reqs)"
  shows "\<exists>ls t. run (ca_step cfg reqs False) s ls t \<and> length (ca_table t) = n \<and>
    fst ` set (ca_table t) = ca_key reqs ` {..<n} \<and> (\<forall>(k, e) \<in> set (ca_table t). ce_createdAt e = ca_now t) \<and>
    (\<forall>i \<ge> n. ca_pc t i = CaStart)"
proof (induction n)
  case 0
  with assms(1) show ?case by (intro exI [of _ "[]"] exI [of _ s]) (simp add: ca_init_def)
next
  case (Suc n)
  then obtain ls t where t: "run (ca_step cfg reqs False) s ls t" "length (ca_table t) = n"
    "fst ` set (ca_table t) = ca_key reqs ` {..<n}" "\<forall>(k, e) \<in> set (ca_table t). ce_createdAt e = ca_now t"
    "\<forall>i \<ge> n. ca_pc t i = CaStart" by blast
  obtain v :: cached where "v = v" by blast
  have new: "ca_key reqs n \<notin> fst ` set (ca_table t)"
    using assms(2) t(3) by (auto dest: injD)
  then have none: "map_of (ca_table t) (ca_key reqs n) = None" by (simp add: map_of_eq_None_iff)
  let ?w = "ca_goto n (CaServed v) (t\<lparr>ca_now := ca_now t, ca_table :=
      cache_store cfg (ca_now t) (ca_now t) (map fst (ca_table t)) (ca_key reqs n) (fst v) (snd v) (ca_table t)\<rparr>)"
  have "run (ca_step cfg reqs False) t [CaLookup n, CaMiss n, CaFetch n v,
      CaStore n (ca_now t) (ca_now t) (map fst (ca_table t)) v] ?w"
    apply (rule run_Cons, rule ca_lookup, use t(5) in simp)
    apply (rule run_Cons, rule ca_absent, simp add: none)
    apply (rule run_Cons, rule ca_fetch, simp)
    apply (rule run_Cons, rule ca_store, simp, simp, simp, simp, simp)
    by (simp add: ca_goto_def)
  moreover have "cache_store cfg (ca_now t) (ca_now t) (map fst (ca_table t)) (ca_key reqs n) (fst v) (snd v) (ca_table t)
      = AList.update (ca_key reqs n) \<lparr>ce_resp = fst v, ce_body = snd v, ce_createdAt = ca_now t\<rparr> (ca_table t)"
    using t(4) by (subst cache_store_def, subst evict_same_instant) auto
  ultimately show ?case
    using t new
    by (intro exI [of _ "ls @ [CaLookup n, CaMiss n, CaFetch n v, CaStore n (ca_now t) (ca_now t) (map fst (ca_table t)) v]"]
        exI [of _ ?w]) (auto simp: run_append ca_goto_def length_update_key AList.dom_update lessThan_Suc dest: update_member)
qed

subsection \<open>An example run\<close>

text \<open>A caller that misses, sends its request and stores the reply, and one that finds it.\<close>

lemma ca_example_run:
  assumes "reqs 0 = reqs 1" and "ca_init s"
  shows "\<exists>t. run (ca_step \<lparr>TTL = 10, MaxEntries = 1, Methods = ms\<rparr> reqs True) s
    ([CaLookup 0, CaMiss 0, CaFetch 0 v, CaStore 0 (ca_now s + 1) (ca_now s + 1) [] v, CaLookup 1] @ [CaHit 1 v]) t"
proof -
  have s: "ca_table s = []" "\<And>i. ca_pc s i = CaStart" using assms(2) by (simp_all add: ca_init_def)
  have k: "ca_key reqs (Suc 0) = ca_key reqs 0" using assms(1) by (simp add: ca_key_def)
  show ?thesis
    unfolding append.simps
    apply (rule exI)
    apply (rule run_Cons, rule ca_lookup, simp add: s)
    apply (rule run_Cons, rule ca_absent, simp add: s)
    apply (rule run_Cons, rule ca_fetch, simp)
    apply (rule run_Cons, rule ca_store, simp, simp, simp, simp, simp add: s)
    apply (rule run_Cons, rule ca_lookup, simp add: ca_goto_def s)
    apply (rule run_Cons)
     apply (rule ca_hit [where e = "\<lparr>ce_resp = fst v, ce_body = snd v, ce_createdAt = ca_now s + 1\<rparr>", simplified])
      apply (simp add: k s cache_store_def cache_evict_def AList.update_conv)
     apply simp_all
    done
qed

end
