(* ===== verification/Circuit.thy ===== *)
theory Circuit
  imports Http "HOL-Library.Sublist"
begin

section \<open>The circuit breaker's state machine: \<open>circuit.go\<close>\<close>

text \<open>
  The breaker's mutable fields as a record, its critical sections as functions on it. A section
  that takes the lock is one function; \<open>allowRequest\<close> is up to two of them, because it gives
  up the read lock before it takes the write lock: \<open>cb_read_section\<close> is what it does under the
  read lock, \<open>cb_open_section\<close> and \<open>cb_half_section\<close> what it does under the write lock, and
  \<open>allow_request\<close> their composition when nobody comes in between (the interleavings are in
  \<open>Circuit_Conc\<close>). A section returns the state changes it reports to the hook and to the
  metrics recorder, in order.

  The lemmas show the invariant of the fields, what each operation does on each of its
  branches, and that the closed breaker trips exactly when the failure threshold is reached by
  consecutive failures.
\<close>

datatype cb_state = StateClosed | StateOpen | StateHalfOpen

definition state_text :: "cb_state \<Rightarrow> string" where
  "state_text s = (case s of StateClosed \<Rightarrow> ''closed'' | StateOpen \<Rightarrow> ''open'' | StateHalfOpen \<Rightarrow> ''half-open'')"

record circuit_config =
  ShouldTrip :: "(response option \<Rightarrow> go_error option \<Rightarrow> bool) option"
  OpenDuration :: duration
  FailureThreshold :: u32
  HalfOpenMaxReqs :: u32

record circuit =
  cb_openedAt :: instant
  cb_state :: cb_state
  cb_generation :: u64
  cb_permits :: u32
  cb_inFlight :: u32
  cb_failures :: u32

type_synonym transition = "cb_state \<times> cb_state"

definition DefaultCircuitConfig :: circuit_config where
  "DefaultCircuitConfig = \<lparr>ShouldTrip = None, OpenDuration = 30 * second,
     FailureThreshold = 5, HalfOpenMaxReqs = 1\<rparr>"

text \<open>The configuration and the fields \<open>NewCircuitBreaker\<close> starts with; \<open>time.Time{}\<close> is instant 0.\<close>

definition circuit_defaults :: "circuit_config \<Rightarrow> circuit_config" where
  "circuit_defaults cfg =
     (let cfg = (if FailureThreshold cfg = 0
                 then cfg\<lparr>FailureThreshold := FailureThreshold DefaultCircuitConfig\<rparr> else cfg);
          cfg = (if OpenDuration cfg = 0
                 then cfg\<lparr>OpenDuration := OpenDuration DefaultCircuitConfig\<rparr> else cfg);
          cfg = (if HalfOpenMaxReqs cfg = 0
                 then cfg\<lparr>HalfOpenMaxReqs := HalfOpenMaxReqs DefaultCircuitConfig\<rparr> else cfg)
      in cfg)"

definition new_circuit :: circuit where
  "new_circuit = \<lparr>cb_openedAt = 0, cb_state = StateClosed, cb_generation = 0,
     cb_permits = 0, cb_inFlight = 0, cb_failures = 0\<rparr>"

definition should_trip :: "circuit_config \<Rightarrow> response option \<Rightarrow> go_error option \<Rightarrow> bool" where
  "should_trip cfg resp err =
     (case ShouldTrip cfg of
        Some f \<Rightarrow> f resp err
      | None \<Rightarrow>
          if err \<noteq> None then True
          else (case resp of None \<Rightarrow> False | Some r \<Rightarrow> rs_status r \<ge> 500))"

subsection \<open>allowRequest\<close>

datatype cb_probe =
    Decided bool u64       \<comment> \<open>returned under the read lock\<close>
  | NeedOpenLock           \<comment> \<open>seen open with the duration over: goes for the write lock\<close>
  | NeedHalfLock u64       \<comment> \<open>seen half-open with a permit, at this generation\<close>

definition cb_read_section :: "circuit_config \<Rightarrow> instant \<Rightarrow> circuit \<Rightarrow> cb_probe" where
  "cb_read_section cfg now cb =
     (case cb_state cb of
        StateClosed \<Rightarrow> Decided True (cb_generation cb)
      | StateOpen \<Rightarrow>
          if now - cb_openedAt cb \<ge> OpenDuration cfg then NeedOpenLock
          else Decided False (cb_generation cb)
      | StateHalfOpen \<Rightarrow>
          if cb_permits cb > 0 then NeedHalfLock (cb_generation cb)
          else Decided False (cb_generation cb))"

definition cb_open_section ::
  "circuit_config \<Rightarrow> instant \<Rightarrow> circuit \<Rightarrow> (bool \<times> u64) \<times> transition list \<times> circuit" where
  "cb_open_section cfg now cb =
     (let (ts, cb) =
        (if cb_state cb = StateOpen \<and> now - cb_openedAt cb \<ge> OpenDuration cfg
         then ([(StateOpen, StateHalfOpen)],
               cb\<lparr>cb_state := StateHalfOpen, cb_permits := HalfOpenMaxReqs cfg,
                  cb_inFlight := 0, cb_generation := cb_generation cb + 1\<rparr>)
         else ([], cb));
        gen = cb_generation cb
      in if cb_permits cb > 0
         then ((True, gen), ts, cb\<lparr>cb_permits := cb_permits cb - 1, cb_inFlight := cb_inFlight cb + 1\<rparr>)
         else ((False, gen), ts, cb))"

definition cb_half_section :: "u64 \<Rightarrow> circuit \<Rightarrow> (bool \<times> u64) \<times> circuit" where
  "cb_half_section gen cb =
     (if cb_state cb = StateHalfOpen \<and> cb_permits cb > 0
      then ((True, gen), cb\<lparr>cb_permits := cb_permits cb - 1, cb_inFlight := cb_inFlight cb + 1\<rparr>)
      else ((False, gen), cb))"

text \<open>\<open>now1\<close> is read under the read lock, \<open>now2\<close> under the write lock.\<close>

definition allow_request ::
  "circuit_config \<Rightarrow> instant \<Rightarrow> instant \<Rightarrow> circuit \<Rightarrow> (bool \<times> u64) \<times> transition list \<times> circuit" where
  "allow_request cfg now1 now2 cb =
     (case cb_read_section cfg now1 cb of
        Decided b gen \<Rightarrow> ((b, gen), [], cb)
      | NeedOpenLock \<Rightarrow> cb_open_section cfg now2 cb
      | NeedHalfLock gen \<Rightarrow> (let (r, cb') = cb_half_section gen cb in (r, [], cb')))"

subsection \<open>onSuccess and onFailure\<close>

definition on_success :: "u64 \<Rightarrow> circuit \<Rightarrow> transition list \<times> circuit" where
  "on_success genAtEntry cb =
     (if cb_generation cb = genAtEntry then
        (case cb_state cb of
           StateClosed \<Rightarrow> ([], cb\<lparr>cb_failures := 0\<rparr>)
         | StateHalfOpen \<Rightarrow>
             (let cb = (if cb_inFlight cb > 0 then cb\<lparr>cb_inFlight := cb_inFlight cb - 1\<rparr> else cb)
              in ([(StateHalfOpen, StateClosed)],
                  cb\<lparr>cb_state := StateClosed, cb_failures := 0, cb_openedAt := 0,
                     cb_permits := 0, cb_inFlight := 0, cb_generation := cb_generation cb + 1\<rparr>))
         | StateOpen \<Rightarrow> ([], cb))
      else ([], cb))"

definition on_failure :: "circuit_config \<Rightarrow> instant \<Rightarrow> u64 \<Rightarrow> circuit \<Rightarrow> transition list \<times> circuit" where
  "on_failure cfg now genAtEntry cb =
     (if cb_generation cb = genAtEntry then
        (case cb_state cb of
           StateClosed \<Rightarrow>
             (let n = cb_failures cb + 1; cb = cb\<lparr>cb_failures := n\<rparr>
              in if n \<ge> FailureThreshold cfg
                 then ([(StateClosed, StateOpen)],
                       cb\<lparr>cb_state := StateOpen, cb_openedAt := now,
                          cb_permits := 0, cb_inFlight := 0, cb_generation := cb_generation cb + 1\<rparr>)
                 else ([], cb))
         | StateHalfOpen \<Rightarrow>
             (let cb = (if cb_inFlight cb > 0 then cb\<lparr>cb_inFlight := cb_inFlight cb - 1\<rparr> else cb)
              in ([(StateHalfOpen, StateOpen)],
                  cb\<lparr>cb_state := StateOpen, cb_openedAt := now,
                     cb_permits := 0, cb_inFlight := 0, cb_generation := cb_generation cb + 1\<rparr>))
         | StateOpen \<Rightarrow> ([], cb))
      else ([], cb))"

lemmas circuit_ops [state_defs] =
  cb_read_section_def cb_open_section_def cb_half_section_def allow_request_def
  on_success_def on_failure_def

subsection \<open>Well-formed configurations and the invariant of the fields\<close>

definition circuit_config_ok :: "circuit_config \<Rightarrow> bool" where
  "circuit_config_ok cfg \<longleftrightarrow> FailureThreshold cfg > 0 \<and> HalfOpenMaxReqs cfg > 0"

lemma circuit_defaults_ok: "circuit_config_ok (circuit_defaults cfg)"
  by (simp add: circuit_config_ok_def circuit_defaults_def DefaultCircuitConfig_def Let_def word_gt_0)

text \<open>
  Closed: fewer failures than the threshold. Half-open: every permit of the period is either
  still there or was taken, and at least one was. Otherwise no permit exists.
\<close>

definition circuit_inv :: "circuit_config \<Rightarrow> circuit \<Rightarrow> bool" where
  "circuit_inv cfg cb \<longleftrightarrow>
     (case cb_state cb of
        StateClosed \<Rightarrow> cb_failures cb < FailureThreshold cfg \<and> cb_permits cb = 0 \<and> cb_inFlight cb = 0
      | StateOpen \<Rightarrow> cb_permits cb = 0 \<and> cb_inFlight cb = 0
      | StateHalfOpen \<Rightarrow>
          unat (cb_permits cb) + unat (cb_inFlight cb) = unat (HalfOpenMaxReqs cfg) \<and> cb_inFlight cb > 0)"

lemma circuit_inv_new: "circuit_config_ok cfg \<Longrightarrow> circuit_inv cfg new_circuit"
  by (simp add: circuit_inv_def new_circuit_def circuit_config_ok_def)

text \<open>Taking a permit keeps the sum of permits and probes, and neither counter wraps.\<close>

lemma take_permit_sum:
  fixes p f m :: u32
  assumes "unat p + unat f = unat m" and "p > 0"
  shows "unat (p - 1) + unat (f + 1) = unat m" and "f + 1 > 0"
proof -
  have "0 < unat p"
    using assms(2) by (simp only: unat_pos_iff)
  with assms(1) have "unat f < unat m" by linarith
  then have "f < m" by (simp add: word_less_nat_alt)
  then have f: "unat (f + 1) = Suc (unat f)" by (rule unat_plus_one)
  then have "0 < unat (f + 1)" by linarith
  then show "f + 1 > 0" by (simp only: unat_pos_iff)
  have "unat (p - 1) = unat p - 1"
    by (rule unat_minus_one_pos [OF assms(2)])
  with assms f \<open>0 < unat p\<close> show "unat (p - 1) + unat (f + 1) = unat m" by linarith
qed

lemma cb_open_section_inv:
  assumes ok: "circuit_config_ok cfg" and inv: "circuit_inv cfg cb"
    and step: "cb_open_section cfg now cb = (r, ts, cb')"
  shows "circuit_inv cfg cb'"
proof -
  have m: "HalfOpenMaxReqs cfg > 0"
    using ok by (simp add: circuit_config_ok_def)
  have sub: "unat (HalfOpenMaxReqs cfg - 1) + unat (0 + 1 :: u32) = unat (HalfOpenMaxReqs cfg)"
    by (rule take_permit_sum(1)) (use m in simp_all)
  show ?thesis
    using inv step sub m take_permit_sum [of "cb_permits cb" "cb_inFlight cb" "HalfOpenMaxReqs cfg"]
    by (auto simp: cb_open_section_def circuit_inv_def Let_def
        split: cb_state.splits if_splits)
qed

lemma cb_half_section_inv:
  "circuit_inv cfg cb \<Longrightarrow> cb_half_section gen cb = (r, cb') \<Longrightarrow> circuit_inv cfg cb'"
  using take_permit_sum [of "cb_permits cb" "cb_inFlight cb" "HalfOpenMaxReqs cfg"]
  by (auto simp: cb_half_section_def circuit_inv_def split: cb_state.splits if_splits)

lemma on_success_inv:
  "circuit_config_ok cfg \<Longrightarrow> circuit_inv cfg cb \<Longrightarrow> on_success gen cb = (ts, cb') \<Longrightarrow> circuit_inv cfg cb'"
  by (auto simp: on_success_def circuit_inv_def circuit_config_ok_def Let_def
      split: cb_state.splits if_splits)

lemma on_failure_inv:
  "circuit_inv cfg cb \<Longrightarrow> on_failure cfg now gen cb = (ts, cb') \<Longrightarrow> circuit_inv cfg cb'"
  by (auto simp: on_failure_def circuit_inv_def Let_def not_le
      split: cb_state.splits if_splits)

lemma allow_request_inv:
  "circuit_config_ok cfg \<Longrightarrow> circuit_inv cfg cb \<Longrightarrow>
   allow_request cfg now1 now2 cb = (r, ts, cb') \<Longrightarrow> circuit_inv cfg cb'"
  by (auto simp: allow_request_def split: cb_probe.splits prod.splits
      intro: cb_open_section_inv cb_half_section_inv)

subsection \<open>Requests one after another\<close>

text \<open>
  A request served with nobody else in between: the breaker's part of \<open>Execute\<close>, with the
  instants at which it reads the clock and the verdict of \<open>shouldTrip\<close> on what \<open>next\<close> returned
  as data.
\<close>

record cb_call =
  call_read :: instant
  call_lock :: instant
  call_trip :: bool
  call_settle :: instant

definition cb_serve :: "circuit_config \<Rightarrow> cb_call \<Rightarrow> circuit \<Rightarrow> bool \<times> circuit" where
  "cb_serve cfg c cb =
     (let ((allowed, gen), _, cb1) = allow_request cfg (call_read c) (call_lock c) cb
      in if \<not> allowed then (False, cb1)
         else if call_trip c then (True, snd (on_failure cfg (call_settle c) gen cb1))
         else (True, snd (on_success gen cb1)))"

fun cb_serve_all :: "circuit_config \<Rightarrow> cb_call list \<Rightarrow> circuit \<Rightarrow> circuit" where
  "cb_serve_all cfg [] cb = cb"
| "cb_serve_all cfg (c # cs) cb = cb_serve_all cfg cs (snd (cb_serve cfg c cb))"

lemma cb_serve_inv: "circuit_config_ok cfg \<Longrightarrow> circuit_inv cfg cb \<Longrightarrow> circuit_inv cfg (snd (cb_serve cfg c cb))"
  by (auto simp: cb_serve_def split: prod.splits
      intro: on_failure_inv on_success_inv allow_request_inv)
    (metis allow_request_inv on_failure_inv on_success_inv prod.collapse)+

lemma cb_serve_all_inv:
  "circuit_config_ok cfg \<Longrightarrow> circuit_inv cfg cb \<Longrightarrow> circuit_inv cfg (cb_serve_all cfg cs cb)"
  by (induction cs arbitrary: cb) (auto intro: cb_serve_inv)

text \<open>What a served request does, state by state.\<close>

lemma serve_closed_success:
  "cb_state cb = StateClosed \<Longrightarrow> \<not> call_trip c \<Longrightarrow> cb_serve cfg c cb = (True, cb\<lparr>cb_failures := 0\<rparr>)"
  by (simp add: cb_serve_def allow_request_def cb_read_section_def on_success_def)

lemma serve_closed_failure:
  assumes "cb_state cb = StateClosed" and "call_trip c"
  shows "cb_serve cfg c cb =
    (True, if cb_failures cb + 1 \<ge> FailureThreshold cfg
           then cb\<lparr>cb_failures := cb_failures cb + 1, cb_state := StateOpen, cb_openedAt := call_settle c,
                   cb_permits := 0, cb_inFlight := 0, cb_generation := cb_generation cb + 1\<rparr>
           else cb\<lparr>cb_failures := cb_failures cb + 1\<rparr>)"
  using assms
  by (simp add: cb_serve_def allow_request_def cb_read_section_def on_failure_def Let_def)

lemma serve_open_early:
  "cb_state cb = StateOpen \<Longrightarrow> call_read c - cb_openedAt cb < OpenDuration cfg \<Longrightarrow>
   cb_serve cfg c cb = (False, cb)"
  by (simp add: cb_serve_def allow_request_def cb_read_section_def)

lemma serve_open_probe:
  assumes "circuit_config_ok cfg" and "cb_state cb = StateOpen"
    and "OpenDuration cfg \<le> call_read c - cb_openedAt cb" and "call_read c \<le> call_lock c"
  shows "fst (cb_serve cfg c cb)"
    and "cb_state (snd (cb_serve cfg c cb)) = (if call_trip c then StateOpen else StateClosed)"
    and "call_trip c \<Longrightarrow> cb_openedAt (snd (cb_serve cfg c cb)) = call_settle c"
    and "\<not> call_trip c \<Longrightarrow> cb_failures (snd (cb_serve cfg c cb)) = 0"
    and "cb_generation (snd (cb_serve cfg c cb)) = cb_generation cb + 2"
  using assms
  by (auto simp: cb_serve_def allow_request_def cb_read_section_def cb_open_section_def
      on_failure_def on_success_def circuit_config_ok_def Let_def)

text \<open>
  While no open period ends, the breaker opened from \<open>failures\<close> counted failures exactly when
  the outcomes start with as many trips as are missing to the threshold, or contain the
  threshold's number of trips in a row.
\<close>

definition in_window :: "instant \<Rightarrow> duration \<Rightarrow> cb_call \<Rightarrow> bool" where
  "in_window t d c \<longleftrightarrow> t \<le> call_settle c \<and> call_read c < t + d"

lemma serve_all_open_stays:
  "\<lbrakk>cb_state cb = StateOpen; t \<le> cb_openedAt cb; \<forall>c \<in> set cs. in_window t (OpenDuration cfg) c\<rbrakk> \<Longrightarrow>
   cb_serve_all cfg cs cb = cb"
  by (induction cs) (auto simp: serve_open_early in_window_def)

lemma prefix_replicate_Cons:
  "0 < n \<Longrightarrow> prefix (replicate n x) (y # ys) \<longleftrightarrow> y = x \<and> prefix (replicate (n - 1) x) ys"
  by (cases n) auto

lemma prefix_replicate_le:
  "m \<le> n \<Longrightarrow> prefix (replicate n x) ys \<Longrightarrow> prefix (replicate m x) ys"
  by (metis le_add_diff_inverse prefixI prefix_order.trans replicate_add)

lemma serve_all_trips_iff:
  assumes "circuit_config_ok cfg" and "cb_state cb = StateClosed"
    and "cb_failures cb < FailureThreshold cfg"
    and "\<forall>c \<in> set cs. in_window t (OpenDuration cfg) c"
  shows "cb_state (cb_serve_all cfg cs cb) = StateOpen \<longleftrightarrow>
      prefix (replicate (unat (FailureThreshold cfg) - unat (cb_failures cb)) True) (map call_trip cs)
      \<or> sublist (replicate (unat (FailureThreshold cfg)) True) (map call_trip cs)"
  using assms
proof (induction cs arbitrary: cb)
  case Nil
  then show ?case by (auto simp: word_less_nat_alt)
next
  case (Cons c cs)
  let ?n = "unat (FailureThreshold cfg)" and ?f = "unat (cb_failures cb)"
  have lt: "?f < ?n" using Cons.prems(3) by (simp add: word_less_nat_alt)
  have step: "unat (cb_failures cb + 1) = Suc ?f"
    using Cons.prems(3) by (rule unat_plus_one)
  have fits: "\<forall>c \<in> set cs. in_window t (OpenDuration cfg) c" and here: "in_window t (OpenDuration cfg) c"
    using Cons.prems(4) by auto
  show ?case
  proof (cases "call_trip c")
    case False
    let ?cb = "cb\<lparr>cb_failures := 0\<rparr>"
    have "cb_state (cb_serve_all cfg cs ?cb) = StateOpen \<longleftrightarrow>
        sublist (replicate ?n True) (map call_trip cs)"
      using Cons.IH [of ?cb] Cons.prems(1,2) fits
      by (auto simp: circuit_config_ok_def)
    with False lt show ?thesis
      by (simp add: serve_closed_success [OF Cons.prems(2)] sublist_Cons_right prefix_replicate_Cons)
  next
    case True
    show ?thesis
    proof (cases "cb_failures cb + 1 \<ge> FailureThreshold cfg")
      case trip: True
      then have "?n = Suc ?f"
        using lt step by (simp add: word_le_nat_alt)
      with trip True here show ?thesis
        by (simp add: serve_closed_failure [OF Cons.prems(2) True]
            serve_all_open_stays [where t = t, OF _ _ fits] in_window_def)
    next
      case False
      then have "cb_failures cb + 1 < FailureThreshold cfg" by simp
      with Cons.IH [of "cb\<lparr>cb_failures := cb_failures cb + 1\<rparr>"] Cons.prems(1,2) fits step
      have "cb_state (cb_serve_all cfg cs (cb\<lparr>cb_failures := cb_failures cb + 1\<rparr>)) = StateOpen \<longleftrightarrow>
          prefix (replicate (?n - Suc ?f) True) (map call_trip cs)
          \<or> sublist (replicate ?n True) (map call_trip cs)"
        by simp
      with False True lt show ?thesis
        by (auto simp: serve_closed_failure [OF Cons.prems(2) True] sublist_Cons_right
            prefix_replicate_Cons intro: prefix_replicate_le [rotated])
    qed
  qed
qed

lemma serve_new_trips_iff:
  assumes "\<forall>c \<in> set cs. in_window t (OpenDuration (circuit_defaults cfg)) c"
  shows "cb_state (cb_serve_all (circuit_defaults cfg) cs new_circuit) = StateOpen \<longleftrightarrow>
    sublist (replicate (unat (FailureThreshold (circuit_defaults cfg))) True) (map call_trip cs)"
proof -
  have closed: "cb_state new_circuit = StateClosed" "cb_failures new_circuit = 0"
    by (simp_all add: new_circuit_def)
  have "cb_failures new_circuit < FailureThreshold (circuit_defaults cfg)"
    using circuit_defaults_ok [of cfg] closed(2) by (simp add: circuit_config_ok_def)
  from serve_all_trips_iff [OF circuit_defaults_ok closed(1) this assms] closed(2)
  show ?thesis by (auto intro: prefix_imp_sublist)
qed

end
