(* ===== verification/Stats.thy ===== *)
theory Stats
  imports Circuit Floats
begin

section \<open>Metrics and statistics: \<open>metrics.go\<close>, \<open>stats.go\<close>\<close>

text \<open>
  A call of a method of the interface \<open>MetricsRecorder\<close> is a value of type \<open>metric\<close>. The client's
  own recorder \<open>statsRecorder\<close> is a record of counters, 64-bit and wrapping, and \<open>stats_record\<close> what
  its methods do to it; forwarding to the wrapped recorder is in theory \<open>World\<close>. A Prometheus
  recorder turns a call into operations on the vectors of its configuration that are not nil.

  The lemmas show what the counters hold after a sequence of calls and that a snapshot reports
  them, and which counter vectors each call touches.
\<close>

datatype metric =
    MRequest string string int duration
  | MRetry string string int
  | MCircuitStateChange string cb_state cb_state
  | MBulkheadDenied string string
  | MRateLimitDenied string string
  | MFallback string string
  | MTimeout string string

record stats_recorder =
  st_requests :: u64
  st_failed :: u64
  st_retries :: u64
  st_fallbacks :: u64
  st_timeouts :: u64
  st_cacheHits :: u64
  st_cacheMisses :: u64
  st_totalDuration :: int
  st_started :: instant
  st_circuitState :: "cb_state option"    \<comment> \<open>\<open>None\<close> is the empty string it starts with\<close>
  st_bulkheadDenied :: u64

definition newStatsRecorder :: "instant \<Rightarrow> stats_recorder" where
  "newStatsRecorder now = \<lparr>st_requests = 0, st_failed = 0, st_retries = 0, st_fallbacks = 0,
     st_timeouts = 0, st_cacheHits = 0, st_cacheMisses = 0, st_totalDuration = 0, st_started = now,
     st_circuitState = None, st_bulkheadDenied = 0\<rparr>"

fun stats_record :: "metric \<Rightarrow> stats_recorder \<Rightarrow> stats_recorder" where
  "stats_record (MRequest meth url status d) s =
     (let s = s\<lparr>st_requests := st_requests s + 1\<rparr>;
          s = s\<lparr>st_totalDuration := wrap64 (st_totalDuration s + d)\<rparr>
      in if status = 0 \<or> status \<ge> 500 then s\<lparr>st_failed := st_failed s + 1\<rparr> else s)"
| "stats_record (MRetry meth url attempt) s = s\<lparr>st_retries := st_retries s + 1\<rparr>"
| "stats_record (MCircuitStateChange name from to) s = s\<lparr>st_circuitState := Some to\<rparr>"
| "stats_record (MBulkheadDenied meth url) s = s\<lparr>st_bulkheadDenied := st_bulkheadDenied s + 1\<rparr>"
| "stats_record (MRateLimitDenied meth url) s = s"
| "stats_record (MFallback meth url) s = s\<lparr>st_fallbacks := st_fallbacks s + 1\<rparr>"
| "stats_record (MTimeout meth url) s = s\<lparr>st_timeouts := st_timeouts s + 1\<rparr>"

record client_stats =
  CircuitState :: "cb_state option"
  BulkheadInFlight :: u32
  BulkheadDenied :: u64
  RateLimitTokens :: int
  RequestsTotal :: u64
  RequestsFailed :: u64
  RetriesTotal :: u64
  FallbacksTotal :: u64
  TimeoutsTotal :: u64
  CacheHits :: u64
  CacheMisses :: u64
  AvgResponseTimeNs :: int
  Uptime :: duration

definition stats_snapshot :: "instant \<Rightarrow> u32 \<Rightarrow> int \<Rightarrow> stats_recorder \<Rightarrow> client_stats" where
  "stats_snapshot now bulkheadInFlight rateTokens s =
     (let cs = st_circuitState s;
          bd = st_bulkheadDenied s;
          total = st_requests s;
          avgNs = (if total > 0 then wrap64 (trunc_div (st_totalDuration s) (sint total)) else 0)
      in \<lparr>CircuitState = cs, BulkheadInFlight = bulkheadInFlight, BulkheadDenied = bd,
          RateLimitTokens = rateTokens, RequestsTotal = total, RequestsFailed = st_failed s,
          RetriesTotal = st_retries s, FallbacksTotal = st_fallbacks s,
          TimeoutsTotal = st_timeouts s, CacheHits = st_cacheHits s,
          CacheMisses = st_cacheMisses s, AvgResponseTimeNs = avgNs, Uptime = now - st_started s\<rparr>)"

subsection \<open>What the counters hold\<close>

fun is_request :: "metric \<Rightarrow> bool" where
  "is_request (MRequest meth url status d) = True"
| "is_request m = False"

fun is_failed_request :: "metric \<Rightarrow> bool" where
  "is_failed_request (MRequest meth url status d) \<longleftrightarrow> status = 0 \<or> status \<ge> 500"
| "is_failed_request m \<longleftrightarrow> False"

fun metric_duration :: "metric \<Rightarrow> duration" where
  "metric_duration (MRequest meth url status d) = d"
| "metric_duration m = 0"

definition stats_after :: "metric list \<Rightarrow> stats_recorder \<Rightarrow> stats_recorder" where
  "stats_after ms s = fold stats_record ms s"

lemma stats_requests:
  "st_requests (stats_after ms s) = st_requests s + of_nat (length (filter is_request ms))"
proof (induction ms arbitrary: s)
  case (Cons m ms)
  show ?case using Cons [of "stats_record m s"]
    by (cases m) (auto simp: stats_after_def Let_def)
qed (simp add: stats_after_def)

lemma stats_failed:
  "st_failed (stats_after ms s) = st_failed s + of_nat (length (filter is_failed_request ms))"
proof (induction ms arbitrary: s)
  case (Cons m ms)
  show ?case using Cons [of "stats_record m s"]
    by (cases m) (auto simp: stats_after_def Let_def)
qed (simp add: stats_after_def)

lemma stats_record_duration:
  "0 \<le> st_totalDuration s \<Longrightarrow> 0 \<le> metric_duration m \<Longrightarrow>
   st_totalDuration s + metric_duration m \<le> max_int64 \<Longrightarrow>
   st_totalDuration (stats_record m s) = st_totalDuration s + metric_duration m"
  by (cases m) (auto simp: Let_def wrap64_id)

lemma stats_duration:
  assumes "0 \<le> st_totalDuration s" and "\<forall>m \<in> set ms. 0 \<le> metric_duration m"
    and "st_totalDuration s + sum_list (map metric_duration ms) \<le> max_int64"
  shows "st_totalDuration (stats_after ms s) = st_totalDuration s + sum_list (map metric_duration ms)"
  using assms
proof (induction ms arbitrary: s)
  case Nil
  then show ?case by (simp add: stats_after_def)
next
  case (Cons m ms)
  have "0 \<le> sum_list (map metric_duration ms)"
    using Cons.prems(2) by (intro sum_list_nonneg) auto
  with Cons.prems have "st_totalDuration (stats_record m s) = st_totalDuration s + metric_duration m"
    by (intro stats_record_duration) auto
  with Cons.prems Cons.IH [of "stats_record m s"] show ?case
    by (simp add: stats_after_def)
qed

lemma failed_among_requests: "length (filter is_failed_request ms) \<le> length (filter is_request ms)"
proof (induction ms)
  case (Cons m ms)
  then show ?case by (cases m) auto
qed simp

text \<open>The average lies between the shortest and the longest of the durations.\<close>

lemma average_bounds:
  assumes "\<forall>d \<in> set ds. lo \<le> d \<and> d \<le> hi" and "ds \<noteq> []" and "0 \<le> lo"
  shows "lo \<le> sum_list ds div int (length ds) \<and> sum_list ds div int (length ds) \<le> (hi :: int)"
proof -
  have "int (length ds) * lo \<le> sum_list ds \<and> sum_list ds \<le> int (length ds) * hi"
    using assms(1) by (induction ds) (auto simp: distrib_right)
  moreover have "0 < int (length ds)" using assms(2) by simp
  ultimately show ?thesis
    by (metis nonzero_mult_div_cancel_left order_less_irrefl zdiv_mono1)
qed

lemma snapshot_average:
  assumes "0 < n" and "n < 9223372036854775808"
    and "0 \<le> st_totalDuration s" and "st_totalDuration s \<le> max_int64" and "st_requests s = of_nat n"
  shows "AvgResponseTimeNs (stats_snapshot now b r s) = st_totalDuration s div int n"
proof -
  have un: "unat (of_nat n :: u64) = n"
    using assms(2) by (simp add: unat_of_nat take_bit_nat_eq_self)
  then have "sint (of_nat n :: u64) = int n"
    using assms(2) by (simp add: sint_uint signed_take_bit_int_eq_self uint_nat)
  moreover have "0 < (of_nat n :: u64)"
    using un assms(1) by (simp add: word_less_nat_alt)
  moreover have "st_totalDuration s div int n \<le> st_totalDuration s"
    using zdiv_mono2 [of "st_totalDuration s" 1 "int n"] assms(1,3) by simp
  moreover have "0 \<le> st_totalDuration s div int n"
    using assms(1,3) by (simp add: pos_imp_zdiv_nonneg_iff)
  ultimately show ?thesis
    using assms by (simp add: stats_snapshot_def Let_def trunc_div_pos wrap64_id)
qed

subsection \<open>The Prometheus recorder\<close>

text \<open>Which vectors of the configuration are not nil.\<close>

record prometheus_config =
  pc_RequestsTotal :: bool
  pc_RetriesTotal :: bool
  pc_CircuitState :: bool
  pc_RequestDuration :: bool
  pc_BulkheadDenied :: bool
  pc_RateLimitDenied :: bool
  pc_FallbacksTotal :: bool
  pc_TimeoutsTotal :: bool
  pc_CircuitTransitions :: bool

datatype prom_op =
    CounterInc string "string list"          \<comment> \<open>vector, label values\<close>
  | GaugeSet string "string list" int
  | HistogramObserve string "string list" rat

definition stateToFloat :: "cb_state \<Rightarrow> int" where
  "stateToFloat s = (case s of StateClosed \<Rightarrow> 0 | StateOpen \<Rightarrow> 1 | StateHalfOpen \<Rightarrow> 2)"

text \<open>\<open>duration.Seconds()\<close> is a quotient of floats, rounded by \<open>rnd\<close>.\<close>

fun prometheus_record :: "(rat \<Rightarrow> rat) \<Rightarrow> prometheus_config \<Rightarrow> metric \<Rightarrow> prom_op list" where
  "prometheus_record rnd cfg (MRequest meth url status d) =
     (if pc_RequestsTotal cfg then [CounterInc ''RequestsTotal'' [meth, url, itoa status]] else []) @
     (if pc_RequestDuration cfg
      then [HistogramObserve ''RequestDuration'' [meth, url] (rnd (of_int d / 1000000000))] else [])"
| "prometheus_record rnd cfg (MRetry meth url attempt) =
     (if pc_RetriesTotal cfg then [CounterInc ''RetriesTotal'' [meth, url, itoa attempt]] else [])"
| "prometheus_record rnd cfg (MCircuitStateChange name from to) =
     (if pc_CircuitState cfg then [GaugeSet ''CircuitState'' [name] (stateToFloat to)] else []) @
     (if pc_CircuitTransitions cfg
      then [CounterInc ''CircuitTransitions'' [name, state_text from, state_text to]] else [])"
| "prometheus_record rnd cfg (MBulkheadDenied meth url) =
     (if pc_BulkheadDenied cfg then [CounterInc ''BulkheadDenied'' [meth, url]] else [])"
| "prometheus_record rnd cfg (MRateLimitDenied meth url) =
     (if pc_RateLimitDenied cfg then [CounterInc ''RateLimitDenied'' [meth, url]] else [])"
| "prometheus_record rnd cfg (MFallback meth url) =
     (if pc_FallbacksTotal cfg then [CounterInc ''FallbacksTotal'' [meth, url]] else [])"
| "prometheus_record rnd cfg (MTimeout meth url) =
     (if pc_TimeoutsTotal cfg then [CounterInc ''TimeoutsTotal'' [meth, url]] else [])"

text \<open>The gauge tells the states apart, and the labels of a request tell its status apart.\<close>

lemma stateToFloat_inject: "stateToFloat s = stateToFloat t \<longleftrightarrow> s = t"
  by (cases s; cases t) (simp_all add: stateToFloat_def)

lemma state_text_inject: "state_text s = state_text t \<longleftrightarrow> s = t"
  by (cases s; cases t) (simp_all add: state_text_def)

end
