(* ===== verification/Stats_Conc.thy ===== *)
theory Stats_Conc
  imports Stats
begin

section \<open>Statistics under concurrency: \<open>stats.go\<close>\<close>

text \<open>
  The methods of \<open>statsRecorder\<close> update several counters, each by an atomic operation of its own or
  under the lock, and \<open>snapshot\<close> reads them one after the other. Here \<open>n\<close> goroutines make one call of
  the recorder each, \<open>ms i\<close>, while another takes a snapshot: \<open>record_ops\<close> are the updates of a call in
  their order, \<open>snapshot_ops\<close> the reads, and a step is one of them. In one piece they are
  \<open>stats_record\<close> and \<open>stats_snapshot\<close>.
\<close>

definition add_request :: "stats_recorder \<Rightarrow> stats_recorder" where
  "add_request s = s\<lparr>st_requests := st_requests s + 1\<rparr>"

definition add_duration :: "duration \<Rightarrow> stats_recorder \<Rightarrow> stats_recorder" where
  "add_duration d s = s\<lparr>st_totalDuration := wrap64 (st_totalDuration s + d)\<rparr>"

definition add_failed :: "stats_recorder \<Rightarrow> stats_recorder" where
  "add_failed s = s\<lparr>st_failed := st_failed s + 1\<rparr>"

fun record_ops :: "metric \<Rightarrow> (stats_recorder \<Rightarrow> stats_recorder) list" where
  "record_ops (MRequest meth url status d) =
     [add_request, add_duration d] @ (if status = 0 \<or> status \<ge> 500 then [add_failed] else [])"
| "record_ops (MRateLimitDenied meth url) = []"
| "record_ops m = [stats_record m]"

lemmas stats_ops [state_defs] = add_request_def add_duration_def add_failed_def

lemma record_ops_fold: "fold (\<lambda>f. f) (record_ops m) s = stats_record m s"
  by (cases m) (simp_all add: state_defs Let_def)

definition blank_stats :: "u32 \<Rightarrow> int \<Rightarrow> client_stats" where
  "blank_stats inFlight tokens = \<lparr>CircuitState = None, BulkheadInFlight = inFlight, BulkheadDenied = 0,
     RateLimitTokens = tokens, RequestsTotal = 0, RequestsFailed = 0, RetriesTotal = 0, FallbacksTotal = 0,
     TimeoutsTotal = 0, CacheHits = 0, CacheMisses = 0, AvgResponseTimeNs = 0, Uptime = 0\<rparr>"

definition snapshot_ops :: "(instant \<Rightarrow> stats_recorder \<Rightarrow> client_stats \<Rightarrow> client_stats) list" where
  "snapshot_ops =
     [\<lambda>now s c. c\<lparr>CircuitState := st_circuitState s, BulkheadDenied := st_bulkheadDenied s\<rparr>,
      \<lambda>now s c. c\<lparr>RequestsTotal := st_requests s\<rparr>,
      \<lambda>now s c. if RequestsTotal c > 0
         then c\<lparr>AvgResponseTimeNs := wrap64 (trunc_div (st_totalDuration s) (sint (RequestsTotal c)))\<rparr> else c,
      \<lambda>now s c. c\<lparr>RequestsFailed := st_failed s\<rparr>,
      \<lambda>now s c. c\<lparr>RetriesTotal := st_retries s\<rparr>,
      \<lambda>now s c. c\<lparr>FallbacksTotal := st_fallbacks s\<rparr>,
      \<lambda>now s c. c\<lparr>TimeoutsTotal := st_timeouts s\<rparr>,
      \<lambda>now s c. c\<lparr>CacheHits := st_cacheHits s\<rparr>,
      \<lambda>now s c. c\<lparr>CacheMisses := st_cacheMisses s\<rparr>,
      \<lambda>now s c. c\<lparr>Uptime := now - st_started s\<rparr>]"

lemma snapshot_ops_fold:
  "fold (\<lambda>f. f now s) snapshot_ops (blank_stats inFlight tokens) = stats_snapshot now inFlight tokens s"
  by (simp add: snapshot_ops_def blank_stats_def stats_snapshot_def Let_def)

subsection \<open>The interleavings\<close>

record ss_sys =
  ss_rec :: stats_recorder
  ss_now :: instant
  ss_done :: "nat \<Rightarrow> nat"       \<comment> \<open>updates made by each caller\<close>
  ss_read :: nat                 \<comment> \<open>reads made by the snapshot\<close>
  ss_snap :: client_stats

datatype ss_label = SsClock duration | SsUpdate nat | SsRead

inductive ss_step :: "nat \<Rightarrow> (nat \<Rightarrow> metric) \<Rightarrow> ss_sys \<Rightarrow> ss_label \<Rightarrow> ss_sys \<Rightarrow> bool"
  for n :: nat and ms :: "nat \<Rightarrow> metric"
where
  ss_clock: "0 \<le> d \<Longrightarrow> ss_step n ms s (SsClock d) (s\<lparr>ss_now := ss_now s + d\<rparr>)"
| ss_update: "i < n \<Longrightarrow> ss_done s i < length (record_ops (ms i)) \<Longrightarrow>
    ss_step n ms s (SsUpdate i) (s\<lparr>ss_rec := (record_ops (ms i) ! ss_done s i) (ss_rec s),
      ss_done := (ss_done s)(i := Suc (ss_done s i))\<rparr>)"
| ss_reads: "ss_read s < length snapshot_ops \<Longrightarrow>
    ss_step n ms s SsRead (s\<lparr>ss_snap := (snapshot_ops ! ss_read s) (ss_now s) (ss_rec s) (ss_snap s),
      ss_read := Suc (ss_read s)\<rparr>)"

inductive_simps ss_step_simps:
  "ss_step n ms s (SsUpdate i) t"
  "ss_step n ms s SsRead t"

definition ss_init :: "ss_sys \<Rightarrow> bool" where
  "ss_init s \<longleftrightarrow> ss_rec s = newStatsRecorder (ss_now s) \<and> ss_done s = (\<lambda>_. 0) \<and> ss_read s = 0 \<and>
     (\<exists>b t. ss_snap s = blank_stats b t)"

definition ss_quiet :: "nat \<Rightarrow> (nat \<Rightarrow> metric) \<Rightarrow> ss_sys \<Rightarrow> bool" where
  "ss_quiet n ms s \<longleftrightarrow> (\<forall>i < n. ss_done s i = length (record_ops (ms i)))"

subsection \<open>What the counters count\<close>

text \<open>The sum of \<open>d\<close> over the callers with \<open>P\<close> that have made at least \<open>k\<close> updates.\<close>

definition reached :: "nat \<Rightarrow> nat \<Rightarrow> (nat \<Rightarrow> bool) \<Rightarrow> (nat \<Rightarrow> int) \<Rightarrow> (nat \<Rightarrow> nat) \<Rightarrow> int" where
  "reached n k P d f = (\<Sum>j<n. if P j \<and> k \<le> f j then d j else 0)"

lemma reached_step:
  assumes "i < n" and "f i \<le> m"
  shows "reached n k P d (f(i := m)) = reached n k P d f + (if P i \<and> f i < k \<and> k \<le> m then d i else 0)"
proof -
  have "(\<Sum>j\<in>{..<n}-{i}. if P j \<and> k \<le> (f(i := m)) j then d j else 0)
      = (\<Sum>j\<in>{..<n}-{i}. if P j \<and> k \<le> f j then d j else 0)"
    by (rule sum.cong) auto
  then show ?thesis
    using assms by (auto simp: reached_def sum.remove [of "{..<n}" i])
qed

lemma reached_zero: "0 < k \<Longrightarrow> reached n k P d (\<lambda>_. 0) = 0"
  by (simp add: reached_def)

lemma reached_mono:
  "k' \<le> k \<Longrightarrow> (\<And>j. P j \<Longrightarrow> Q j) \<Longrightarrow> reached n k P (\<lambda>_. 1) f \<le> reached n k' Q (\<lambda>_. 1) f"
  by (auto simp: reached_def intro!: sum_mono)

lemma reached_bounds: "0 \<le> reached n k P (\<lambda>_. 1) f \<and> reached n k P (\<lambda>_. 1) f \<le> int n"
  using sum_bounded_above [of "{..<n}" "\<lambda>j. if P j \<and> k \<le> f j then 1 else 0" "1 :: int"]
  by (auto simp: reached_def intro: sum_nonneg)

lemma reached_grows: "(\<And>j. f j \<le> g j) \<Longrightarrow> reached n k P (\<lambda>_. 1) f \<le> reached n k P (\<lambda>_. 1) g"
  unfolding reached_def by (intro sum_mono) (auto intro: order_trans)

lemma reached_all: "(\<And>j. j < n \<Longrightarrow> P j \<Longrightarrow> k \<le> f j) \<Longrightarrow> reached n k P d f = (\<Sum>j<n. if P j then d j else 0)"
  unfolding reached_def by (intro sum.cong) auto

lemma wrap64_add: "wrap64 (wrap64 a + b) = wrap64 (a + b)"
  by (simp add: wrap64_def mod_simps algebra_simps)

text \<open>The counters of \<open>s\<close>, given how many calls of each kind they count and the time to add.\<close>

fun is_retry :: "metric \<Rightarrow> bool" where
  "is_retry (MRetry meth url attempt) = True"
| "is_retry m = False"

fun is_bulkhead_denied :: "metric \<Rightarrow> bool" where
  "is_bulkhead_denied (MBulkheadDenied meth url) = True"
| "is_bulkhead_denied m = False"

fun is_fallback :: "metric \<Rightarrow> bool" where
  "is_fallback (MFallback meth url) = True"
| "is_fallback m = False"

fun is_timeout :: "metric \<Rightarrow> bool" where
  "is_timeout (MTimeout meth url) = True"
| "is_timeout m = False"

definition tallies :: "(nat \<Rightarrow> (metric \<Rightarrow> bool) \<Rightarrow> int) \<Rightarrow> int \<Rightarrow> instant \<Rightarrow> stats_recorder \<Rightarrow> bool" where
  "tallies c d started s \<longleftrightarrow>
     st_requests s = word_of_int (c 1 is_request) \<and> st_failed s = word_of_int (c 3 is_failed_request) \<and>
     st_totalDuration s = wrap64 d \<and>
     st_retries s = word_of_int (c 1 is_retry) \<and> st_bulkheadDenied s = word_of_int (c 1 is_bulkhead_denied) \<and>
     st_fallbacks s = word_of_int (c 1 is_fallback) \<and> st_timeouts s = word_of_int (c 1 is_timeout) \<and>
     st_cacheHits s = 0 \<and> st_cacheMisses s = 0 \<and> st_started s = started"

text \<open>Two recorders with the same tallies differ at most in the circuit state.\<close>

lemma tallies_eq:
  "tallies c d t0 s \<Longrightarrow> tallies c d t0 s' \<Longrightarrow> s\<lparr>st_circuitState := st_circuitState s'\<rparr> = s'"
  by (cases s; cases s') (simp add: tallies_def)

definition done_count :: "nat \<Rightarrow> (nat \<Rightarrow> metric) \<Rightarrow> (nat \<Rightarrow> nat) \<Rightarrow> nat \<Rightarrow> (metric \<Rightarrow> bool) \<Rightarrow> int" where
  "done_count n ms f k P = reached n k (\<lambda>i. P (ms i)) (\<lambda>_. 1) f"

definition ss_counts :: "nat \<Rightarrow> (nat \<Rightarrow> metric) \<Rightarrow> instant \<Rightarrow> ss_sys \<Rightarrow> bool" where
  "ss_counts n ms started s \<longleftrightarrow> tallies (done_count n ms (ss_done s))
     (reached n 2 (\<lambda>i. is_request (ms i)) (\<lambda>i. metric_duration (ms i)) (ss_done s)) started (ss_rec s)"

lemma ss_counts_update:
  assumes "ss_counts n ms t0 s" and "i < n" and "ss_done s i < length (record_ops (ms i))"
  shows "ss_counts n ms t0 (s\<lparr>ss_rec := (record_ops (ms i) ! ss_done s i) (ss_rec s),
      ss_done := (ss_done s)(i := Suc (ss_done s i))\<rparr>)"
proof (cases "ms i")
  case (MRequest meth url status d)
  then consider "ss_done s i = 0" | "ss_done s i = 1" | "ss_done s i = 2" "status = 0 \<or> status \<ge> 500"
    using assms(3) by (auto split: if_splits) linarith+
  then show ?thesis
    using assms(1,2) MRequest
    by cases (auto simp: ss_counts_def tallies_def done_count_def reached_step state_defs wrap64_add nth_append)
qed (use assms in \<open>auto simp: ss_counts_def tallies_def done_count_def reached_step\<close>)

interpretation ss_kept: invariant_system
  "\<lambda>s. ss_init s \<and> ss_now s = t0" "ss_step n ms" "ss_counts n ms t0" for n ms t0
proof unfold_locales
  fix s assume "ss_init s \<and> ss_now s = t0"
  then show "ss_counts n ms t0 s"
    by (simp add: ss_init_def ss_counts_def tallies_def done_count_def newStatsRecorder_def reached_zero wrap64_def)
next
  fix s l t assume "ss_counts n ms t0 s" and "ss_step n ms s l t"
  from this(2,1) show "ss_counts n ms t0 t"
    by cases (auto intro: ss_counts_update, simp_all add: ss_counts_def)
qed

subsection \<open>The calls in one piece\<close>

definition call_count :: "nat \<Rightarrow> (nat \<Rightarrow> metric) \<Rightarrow> nat \<Rightarrow> (metric \<Rightarrow> bool) \<Rightarrow> int" where
  "call_count n ms k P = (\<Sum>i<n. if P (ms i) then 1 else 0)"

lemma tallies_record:
  "tallies (call_count n ms) (\<Sum>i<n. if is_request (ms i) then metric_duration (ms i) else 0) t0 s \<Longrightarrow>
   tallies (call_count (Suc n) ms) (\<Sum>i<Suc n. if is_request (ms i) then metric_duration (ms i) else 0) t0
     (stats_record (ms n) s)"
  by (cases "ms n") (auto simp: tallies_def call_count_def Let_def wrap64_add)

lemma tallies_stats_after:
  "tallies (call_count n ms) (\<Sum>i<n. if is_request (ms i) then metric_duration (ms i) else 0) t0
     (stats_after (map ms [0..<n]) (newStatsRecorder t0))"
proof (induction n)
  case 0
  then show ?case by (simp add: tallies_def call_count_def stats_after_def newStatsRecorder_def wrap64_def)
next
  case (Suc n)
  then show ?case using tallies_record by (simp add: stats_after_def)
qed

lemma done_count_quiet:
  assumes "ss_quiet n ms s"
  shows "tallies (done_count n ms (ss_done s)) d t0 r \<longleftrightarrow> tallies (call_count n ms) d t0 r"
    and "reached n 2 (\<lambda>i. is_request (ms i)) e (ss_done s) = (\<Sum>i<n. if is_request (ms i) then e i else 0)"
proof -
  have len: "is_request m \<Longrightarrow> 2 \<le> length (record_ops m)" "is_failed_request m \<Longrightarrow> 3 \<le> length (record_ops m)"
    "is_request m \<or> is_retry m \<or> is_bulkhead_denied m \<or> is_fallback m \<or> is_timeout m \<Longrightarrow> 1 \<le> length (record_ops m)" for m
    by (cases m; auto)+
  have "done_count n ms (ss_done s) k P = call_count n ms k P" if "\<And>m. P m \<Longrightarrow> k \<le> length (record_ops m)" for k P
    unfolding done_count_def call_count_def using assms that by (auto simp: ss_quiet_def intro: reached_all)
  then show "tallies (done_count n ms (ss_done s)) d t0 r \<longleftrightarrow> tallies (call_count n ms) d t0 r"
    unfolding tallies_def using len by simp
  show "reached n 2 (\<lambda>i. is_request (ms i)) e (ss_done s) = (\<Sum>i<n. if is_request (ms i) then e i else 0)"
    using assms len(1) by (auto simp: ss_quiet_def intro: reached_all)
qed

text \<open>
  When every call has been made, the recorder is as after the calls one after another: only
  which of the circuit states is the last one may differ.
\<close>

lemma ss_quiet_sequential:
  assumes "ss_init s" and "run (ss_step n ms) s ls t" and "ss_quiet n ms t"
  shows "\<exists>c. ss_rec t = (stats_after (map ms [0..<n]) (newStatsRecorder (ss_now s)))\<lparr>st_circuitState := c\<rparr>"
proof -
  have "ss_counts n ms (ss_now s) t"
    using ss_kept.reachable_inv [of s "ss_now s", OF _ assms(2)] assms(1) by simp
  then have "tallies (call_count n ms) (\<Sum>i<n. if is_request (ms i) then metric_duration (ms i) else 0)
      (ss_now s) (ss_rec t)"
    by (simp add: ss_counts_def done_count_quiet [OF assms(3)])
  from tallies_eq [OF tallies_stats_after this] show ?thesis by metis
qed

subsection \<open>While the calls are being made\<close>

lemma uint_reached: "int n < 2 ^ 64 \<Longrightarrow> uint (word_of_int (reached n k P (\<lambda>_. 1) f) :: u64) = reached n k P (\<lambda>_. 1) f"
  using reached_bounds [of n k P f] by (simp add: uint_word_of_int_eq take_bit_int_eq_self)

lemma ss_failed_le:
  assumes "ss_counts n ms t0 s" and "int n < 2 ^ 64"
  shows "st_failed (ss_rec s) \<le> st_requests (ss_rec s) \<and> uint (st_requests (ss_rec s)) \<le> int n"
proof -
  have "is_failed_request m \<Longrightarrow> is_request m" for m by (cases m) auto
  then have "reached n 3 (\<lambda>i. is_failed_request (ms i)) (\<lambda>_. 1) f \<le> reached n 1 (\<lambda>i. is_request (ms i)) (\<lambda>_. 1) f" for f
    by (intro reached_mono) auto
  then show ?thesis
    using assms reached_bounds by (simp add: ss_counts_def tallies_def done_count_def word_le_def uint_reached)
qed

lemma ss_step_grows:
  assumes "ss_counts n ms t0 s" and "ss_step n ms s l t" and "int n < 2 ^ 64"
  shows "st_requests (ss_rec s) \<le> st_requests (ss_rec t) \<and> st_failed (ss_rec s) \<le> st_failed (ss_rec t)"
proof -
  have "ss_done s j \<le> ss_done t j" for j
    using assms(2) by cases auto
  then have "reached n k P (\<lambda>_. 1) (ss_done s) \<le> reached n k P (\<lambda>_. 1) (ss_done t)" for k P
    by (rule reached_grows)
  then show ?thesis
    using assms(1,3) ss_kept.step_inv [OF assms(1,2)]
    by (simp add: ss_counts_def tallies_def done_count_def word_le_def uint_reached)
qed

text \<open>A read takes a counter over as it is, or leaves the field alone.\<close>

lemma snapshot_read:
  assumes "k < length snapshot_ops"
  shows "RequestsTotal ((snapshot_ops ! k) now s c) \<in> {RequestsTotal c, st_requests s}"
    and "RequestsFailed ((snapshot_ops ! k) now s c) \<in> {RequestsFailed c, st_failed s}"
  using assms by (auto simp: snapshot_ops_def less_Suc_eq)

definition ss_told :: "nat \<Rightarrow> (nat \<Rightarrow> metric) \<Rightarrow> instant \<Rightarrow> ss_sys \<Rightarrow> bool" where
  "ss_told n ms t0 s \<longleftrightarrow> ss_counts n ms t0 s \<and> int n < 2 ^ 64 \<and>
     RequestsTotal (ss_snap s) \<le> st_requests (ss_rec s) \<and> RequestsFailed (ss_snap s) \<le> st_failed (ss_rec s)"

interpretation ss_past: invariant_system
  "\<lambda>s. ss_init s \<and> ss_now s = t0 \<and> int n < 2 ^ 64" "ss_step n ms" "ss_told n ms t0" for n ms t0
proof unfold_locales
  fix s assume "ss_init s \<and> ss_now s = t0 \<and> int n < 2 ^ 64"
  then show "ss_told n ms t0 s"
    using ss_kept.init_inv [of s t0 n ms] by (auto simp: ss_told_def ss_init_def blank_stats_def)
next
  fix s l t assume told: "ss_told n ms t0 s" and step: "ss_step n ms s l t"
  then have "ss_counts n ms t0 t" and grows: "st_requests (ss_rec s) \<le> st_requests (ss_rec t)"
      "st_failed (ss_rec s) \<le> st_failed (ss_rec t)"
    using ss_kept.step_inv [OF _ step] ss_step_grows [OF _ step] by (auto simp: ss_told_def)
  from step show "ss_told n ms t0 t"
  proof cases
    case ss_reads
    then show ?thesis
      using told \<open>ss_counts n ms t0 t\<close> snapshot_read [OF ss_reads(3), of "ss_now s" "ss_rec s" "ss_snap s"]
      by (auto simp: ss_told_def)
  qed (use told \<open>ss_counts n ms t0 t\<close> grows in \<open>auto simp: ss_told_def\<close>)
qed

lemma ss_consistent:
  assumes "ss_init s" and "run (ss_step n ms) s ls t" and "int n < 2 ^ 64"
  shows "st_failed (ss_rec t) \<le> st_requests (ss_rec t) \<and>
    RequestsTotal (ss_snap t) \<le> st_requests (ss_rec t) \<and> RequestsFailed (ss_snap t) \<le> st_failed (ss_rec t)"
proof -
  have "ss_told n ms (ss_now s) t"
    using assms by (intro ss_past.reachable_inv) auto
  then show ?thesis using ss_failed_le by (auto simp: ss_told_def)
qed

text \<open>
  A snapshot is not one moment: one taken while a request fails can report the failure and not the
  request.
\<close>

definition ss_start :: ss_sys where
  "ss_start = \<lparr>ss_rec = newStatsRecorder 0, ss_now = 0, ss_done = \<lambda>_. 0, ss_read = 0, ss_snap = blank_stats 0 0\<rparr>"

lemma ss_torn_run:
  "\<exists>t. run (ss_step 1 (\<lambda>_. MRequest ''GET'' ''/'' 500 7)) ss_start
     ([SsRead, SsRead, SsRead] @ [SsUpdate 0, SsUpdate 0, SsUpdate 0] @ [SsRead]) t \<and>
   ss_quiet 1 (\<lambda>_. MRequest ''GET'' ''/'' 500 7) t \<and>
   RequestsTotal (ss_snap t) = 0 \<and> RequestsFailed (ss_snap t) = 1"
  by (simp add: run_Cons_iff ss_step_simps ss_start_def snapshot_ops_def blank_stats_def state_defs ss_quiet_def
    newStatsRecorder_def)

end
