(* ===== verification/Adaptive.thy ===== *)
theory Adaptive
  imports Floats "HOL-Library.Multiset"
begin

section \<open>The adaptive timeout's statistics: \<open>adaptive.go\<close>\<close>

text \<open>
  The policy keeps the last durations and the percentile it computed from them. \<open>record_sample\<close>
  is \<open>record\<close>: it appends, drops all but the newest 512 when there are more than 1024, and with
  enough samples sorts a copy and picks one by a floating-point index. The field \<open>Window\<close> of the
  configuration is set by the constructor and read by no operation.
\<close>

record adaptive_config =
  ac_Initial :: duration
  ac_Percentile :: int
  ac_Window :: duration
  ac_MinSamples :: int

record adaptive =
  ad_cfg :: adaptive_config
  ad_durations :: "duration list"
  ad_median :: duration

definition adaptive_defaults :: "adaptive_config \<Rightarrow> adaptive_config" where
  "adaptive_defaults cfg =
     (let cfg = (if ac_Initial cfg = 0 then cfg\<lparr>ac_Initial := 5 * second\<rparr> else cfg);
          cfg = (if ac_Percentile cfg \<le> 0 \<or> ac_Percentile cfg > 100
                 then cfg\<lparr>ac_Percentile := 99\<rparr> else cfg);
          cfg = (if ac_Window cfg = 0 then cfg\<lparr>ac_Window := 5 * minute\<rparr> else cfg);
          cfg = (if ac_MinSamples cfg < 10 then cfg\<lparr>ac_MinSamples := 10\<rparr> else cfg)
      in cfg)"

definition NewAdaptiveTimeout :: "adaptive_config \<Rightarrow> adaptive" where
  "NewAdaptiveTimeout cfg =
     (let cfg = adaptive_defaults cfg
      in \<lparr>ad_cfg = cfg, ad_durations = [], ad_median = ac_Initial cfg\<rparr>)"

text \<open>\<open>idx := int(float64(len(sorted)-1) * float64(at.cfg.Percentile) / 100.0)\<close>.\<close>

definition percentile_index :: "float_env \<Rightarrow> nat \<Rightarrow> int \<Rightarrow> int" where
  "percentile_index fe n p =
     fl_to_int64 fe (fl_div fe (fl_mul fe (fl_of_int fe (int n - 1)) (fl_of_int fe p)) 100)"

definition record_sample :: "float_env \<Rightarrow> duration \<Rightarrow> adaptive \<Rightarrow> adaptive" where
  "record_sample fe d a =
     (let ds = ad_durations a @ [d];
          ds = (if length ds > 1024 then drop (length ds - 512) ds else ds);
          a = a\<lparr>ad_durations := ds\<rparr>
      in if int (length ds) \<ge> ac_MinSamples (ad_cfg a)
         then
           (let sorted = sort ds;
                idx = percentile_index fe (length sorted) (ac_Percentile (ad_cfg a))
            in a\<lparr>ad_median := sorted ! nat idx\<rparr>)
         else a)"

definition current_timeout :: "adaptive \<Rightarrow> duration" where
  "current_timeout a = ad_median a"

text \<open>The timeout \<open>Execute\<close> uses.\<close>

definition adaptive_timeout :: "adaptive \<Rightarrow> duration" where
  "adaptive_timeout a = (if ad_median a \<le> 0 then ac_Initial (ad_cfg a) else ad_median a)"

subsection \<open>The index stays in the slice\<close>

lemma percentile_index_exact_product:
  assumes "float_ok fe" and "0 < n" and "n \<le> 1024" and "0 \<le> p" and "p \<le> 100"
  shows "fl_mul fe (fl_of_int fe (int n - 1)) (fl_of_int fe p) = of_int ((int n - 1) * p)"
proof -
  have "(int n - 1) * p \<le> 1023 * 100"
    using assms by (intro mult_mono) linarith+
  moreover have "0 \<le> (int n - 1) * p" using assms by simp
  ultimately have "\<bar>(int n - 1) * p\<bar> \<le> 9007199254740992" by linarith
  moreover have "fl_of_int fe (int n - 1) = of_int (int n - 1)" "fl_of_int fe p = of_int p"
    using assms by (intro fl_of_int_exact; linarith)+
  ultimately show ?thesis
    using assms(1) fl_round_int [of fe "(int n - 1) * p"] by (simp add: fl_mul_def)
qed

lemma percentile_index_bounds:
  assumes "float_ok fe" and "0 < n" and "n \<le> 1024" and "0 \<le> p" and "p \<le> 100"
  shows "0 \<le> percentile_index fe n p \<and> percentile_index fe n p < int n"
proof -
  let ?q = "of_int ((int n - 1) * p) / 100 :: rat"
  have "(int n - 1) * p \<le> (int n - 1) * 100"
    using assms by (intro mult_left_mono) simp_all
  then have "(of_int ((int n - 1) * p) :: rat) \<le> of_int ((int n - 1) * 100)"
    by (simp only: of_int_le_iff)
  then have up: "?q \<le> of_int (int n - 1)" by simp
  have lo: "0 \<le> ?q" using assms by simp
  have "fl_round fe ?q \<le> of_int (int n - 1)"
    using assms by (intro fl_round_le_int [OF assms(1) up]) simp
  moreover have "0 \<le> fl_round fe ?q" using assms(1) lo by (rule fl_round_nonneg)
  ultimately show ?thesis
    unfolding percentile_index_def percentile_index_exact_product [OF assms] fl_div_def
    using fl_to_int64_le [of "fl_round fe ?q" "int n - 1" fe] fl_to_int64_nonneg [of "fl_round fe ?q" "int n - 1" fe]
      assms(3) by simp
qed

text \<open>The rounding of the quotient does not change its integer part.\<close>

lemma rounded_quotient:
  fixes x :: int
  assumes ok: "float_ok fe" and x: "0 \<le> x" "x \<le> 102300"
  shows "fl_to_int64 fe (fl_round fe (of_int x / 100)) = x div 100"
proof -
  define a r where "a = x div 100" and "r = x mod 100"
  have r: "0 \<le> r" "r \<le> 99" using pos_mod_bound [of 100 x] by (simp_all add: r_def)
  have "x = 100 * a + r" by (simp add: a_def r_def)
  then have "(of_int x :: rat) = 100 * of_int a + of_int r" by simp
  moreover have "(0 :: rat) \<le> of_int r" "of_int r \<le> (99 :: rat)"
    using r by (simp_all add: of_int_le_numeral_iff)
  ultimately have lo: "of_int a \<le> (of_int x / 100 :: rat)" and hi: "(of_int x / 100 :: rat) \<le> of_int a + 99 / 100"
    by (simp_all add: field_simps)
  have a: "0 \<le> a" "\<bar>a\<bar> \<le> 9007199254740992" using x unfolding a_def by linarith+
  have "of_int a \<le> fl_round fe (of_int x / 100)"
    using ok lo a(2) by (rule fl_round_ge_int)
  moreover have q: "(of_int x / 100 :: rat) \<le> 1023" "(0 :: rat) \<le> of_int x / 100"
    using x by (simp_all add: of_int_le_numeral_iff divide_le_eq)
  then have "fl_round fe (of_int x / 100) \<le> of_int x / 100 + (1023 * float_eps + float_eps)"
    using ok by (intro fl_round_upper) simp_all
  then have "fl_round fe (of_int x / 100) < of_int a + 1" using hi by simp
  moreover have "0 \<le> fl_round fe (of_int x / 100)" using ok q(2) by (rule fl_round_nonneg)
  moreover have "a \<le> max_int64" using a(2) by linarith
  ultimately show ?thesis
    using fl_to_int64_id [of "fl_round fe (of_int x / 100)" a fe] by (simp add: fl_to_int_def floor_eq_iff a_def)
qed

lemma percentile_index_exact:
  assumes "float_ok fe" and "0 < n" and "n \<le> 1024" and "0 \<le> p" and "p \<le> 100"
  shows "percentile_index fe n p = (int n - 1) * p div 100"
proof -
  have "(int n - 1) * p \<le> 1023 * 100"
    using assms by (intro mult_mono) linarith+
  then show ?thesis
    unfolding percentile_index_def percentile_index_exact_product [OF assms] fl_div_def
    using assms by (intro rounded_quotient) simp_all
qed

subsection \<open>The invariant and the meaning of the percentile\<close>

definition adaptive_ok :: "adaptive \<Rightarrow> bool" where
  "adaptive_ok a \<longleftrightarrow> length (ad_durations a) \<le> 1024 \<and>
     0 < ac_Percentile (ad_cfg a) \<and> ac_Percentile (ad_cfg a) \<le> 100 \<and> 10 \<le> ac_MinSamples (ad_cfg a)"

lemma NewAdaptiveTimeout_ok: "adaptive_ok (NewAdaptiveTimeout cfg)"
  by (simp add: adaptive_ok_def NewAdaptiveTimeout_def adaptive_defaults_def Let_def)

definition kept_samples :: "duration \<Rightarrow> adaptive \<Rightarrow> duration list" where
  "kept_samples d a = (let ds = ad_durations a @ [d] in
     if length ds > 1024 then drop (length ds - 512) ds else ds)"

lemma kept_samples_length: "length (ad_durations a) \<le> 1024 \<Longrightarrow>
    0 < length (kept_samples d a) \<and> length (kept_samples d a) \<le> 1024"
  by (simp add: kept_samples_def Let_def)

lemma record_sample_fields:
  "ad_cfg (record_sample fe d a) = ad_cfg a"
  "ad_durations (record_sample fe d a) = kept_samples d a"
  "ad_median (record_sample fe d a) =
     (if ac_MinSamples (ad_cfg a) \<le> int (length (kept_samples d a))
      then sort (kept_samples d a) !
        nat (percentile_index fe (length (kept_samples d a)) (ac_Percentile (ad_cfg a)))
      else ad_median a)"
  by (simp_all add: record_sample_def kept_samples_def Let_def)

lemma record_sample_ok: "adaptive_ok a \<Longrightarrow> adaptive_ok (record_sample fe d a)"
  using kept_samples_length [of a d] by (simp add: adaptive_ok_def record_sample_fields)

text \<open>In a sorted list at least \<open>i + 1\<close> elements are at most the one at index \<open>i\<close>.\<close>

lemma sorted_nth_count:
  assumes "sorted xs" and "i < length xs"
  shows "i + 1 \<le> length (filter (\<lambda>x. x \<le> xs ! i) xs)"
proof -
  have "\<forall>x \<in> set (take (Suc i) xs). x \<le> xs ! i"
    using assms by (auto simp: in_set_conv_nth sorted_nth_mono)
  then have "filter (\<lambda>x. x \<le> xs ! i) (take (Suc i) xs) = take (Suc i) xs"
    by simp
  then have "length (take (Suc i) xs) \<le> length (filter (\<lambda>x. x \<le> xs ! i) xs)"
    by (metis append_take_drop_id filter_append le_add1 length_append)
  with assms(2) show ?thesis by simp
qed

lemma length_filter_sort: "length (filter P (sort xs)) = length (filter P xs)"
  by (metis mset_filter mset_sort size_mset)

lemma record_sample_percentile:
  assumes ok: "float_ok fe" "adaptive_ok a"
    and enough: "ac_MinSamples (ad_cfg a) \<le> int (length (kept_samples d a))"
  shows "ad_median (record_sample fe d a) \<in> set (kept_samples d a)"
    and "(int (length (kept_samples d a)) - 1) * ac_Percentile (ad_cfg a) div 100
      < int (length (filter (\<lambda>x. x \<le> ad_median (record_sample fe d a)) (kept_samples d a)))"
proof -
  let ?ds = "kept_samples d a" and ?p = "ac_Percentile (ad_cfg a)"
  let ?i = "percentile_index fe (length ?ds) ?p"
  have len: "0 < length ?ds" "length ?ds \<le> 1024"
    using ok(2) kept_samples_length by (auto simp: adaptive_ok_def)
  have p: "0 \<le> ?p" "?p \<le> 100" using ok(2) by (simp_all add: adaptive_ok_def)
  note b = percentile_index_bounds [OF ok(1) len p]
  have m: "ad_median (record_sample fe d a) = sort ?ds ! nat ?i"
    using enough by (simp add: record_sample_fields)
  have i: "nat ?i < length (sort ?ds)" using b by (simp add: nat_less_iff)
  show "ad_median (record_sample fe d a) \<in> set ?ds"
    using m nth_mem [OF i] by simp
  show "(int (length ?ds) - 1) * ?p div 100
      < int (length (filter (\<lambda>x. x \<le> ad_median (record_sample fe d a)) ?ds))"
    unfolding m percentile_index_exact [OF ok(1) len p, symmetric]
    using sorted_nth_count [OF sorted_sort i] b unfolding length_filter_sort by linarith
qed

text \<open>Few samples leave the timeout as it was.\<close>

lemma record_sample_few:
  "int (length (kept_samples d a)) < ac_MinSamples (ad_cfg a) \<Longrightarrow>
   ad_median (record_sample fe d a) = ad_median a"
  by (simp add: record_sample_fields)

text \<open>\<open>Window\<close> has no effect: two configurations that differ in it behave alike.\<close>

lemma record_sample_window:
  "record_sample fe d (a\<lparr>ad_cfg := (ad_cfg a)\<lparr>ac_Window := w\<rparr>\<rparr>) =
   (record_sample fe d a)\<lparr>ad_cfg := (ad_cfg a)\<lparr>ac_Window := w\<rparr>\<rparr>"
  by (simp add: record_sample_def Let_def)

end
