(* ===== verification/World.thy ===== *)
theory World
  imports Stats Budget Adaptive Cache_Store
begin

section \<open>The world a request runs in\<close>

text \<open>
  The policies' \<open>Execute\<close> methods as functions of an explicit state: a \<open>'a prog\<close> takes the world
  to a result and the world after. The world holds the clock, what the environment decides
  (how far the clock moves between two readings, which ready case a \<open>select\<close> takes, random draws,
  the order in which a map is iterated; all of them arbitrary streams, consumed one by one),
  the memory that requests, headers and bodies live in, the cancel functions called so far, the
  mutable state of the policies, and a trace of what was reported to metrics recorders and of the
  waits. A policy function is what the code calls \<open>PolicyFunc\<close>; code outside the repository
  (\<open>http.Client.Do\<close>, hooks, handlers) is an arbitrary function of these types.
\<close>

datatype event =
    Metric nat metric          \<comment> \<open>a call of the recorder with this identity\<close>
  | Slept duration             \<comment> \<open>a timer that was waited for to the end\<close>
  | Sent string string bytes   \<comment> \<open>method, URL and body of a request put on the wire\<close>

text \<open>Loggers are values that are compared and passed on; what they print is not modelled.\<close>

datatype logger = NilLogger | DefaultLogger | DebugLogger | UserLogger nat | CustomLogger nat

text \<open>\<open>HealthChecker\<close>: the memory statistics are the environment's.\<close>

record memory_stats =
  Alloc :: u64
  TotalAlloc :: u64
  Sys :: u64
  NumGC :: u32

record health_checker =
  hk_started :: instant
  hk_memStats :: "memory_stats option"
  hk_memUpdated :: instant
  hk_stopped :: bool

record world =
  w_now :: instant
  w_pos :: nat
  w_tick :: "nat \<Rightarrow> nat"
  w_choice :: "nat \<Rightarrow> bool"
  w_rand :: "nat \<Rightarrow> rat"
  w_order :: "nat \<Rightarrow> string list \<Rightarrow> string list"
  w_float :: float_env
  w_parse_time :: "string \<Rightarrow> instant option"    \<comment> \<open>\<open>http.ParseTime\<close>\<close>
  w_next :: nat
  w_requests :: "nat \<Rightarrow> request"
  w_headers :: "nat \<Rightarrow> header"
  w_readers :: "nat \<Rightarrow> reader"
  w_cancelled :: "nat set"
  w_circuits :: "nat \<Rightarrow> circuit"
  w_budgets :: "nat \<Rightarrow> retry_budget"
  w_adaptives :: "nat \<Rightarrow> adaptive"
  w_caches :: "nat \<Rightarrow> cache_table"
  w_stats :: "nat \<Rightarrow> stats_recorder"
  w_checkers :: "nat \<Rightarrow> health_checker option"
  w_memory :: "nat \<Rightarrow> memory_stats"      \<comment> \<open>\<open>runtime.ReadMemStats\<close>\<close>
  w_trace :: "event list"

type_synonym 'a prog = "world \<Rightarrow> 'a result \<times> world"
type_synonym policy_func = "ctx \<Rightarrow> nat \<Rightarrow> reply prog"

subsection \<open>Sequencing, panics and deferred calls\<close>

definition return :: "'a \<Rightarrow> 'a prog" where
  "return x w = (Returned x, w)"

definition panic :: "string \<Rightarrow> 'a prog" where
  "panic v w = (Panicked v, w)"

definition bind :: "'a prog \<Rightarrow> ('a \<Rightarrow> 'b prog) \<Rightarrow> 'b prog" where
  "bind m f w = (case m w of
       (Returned x, w') \<Rightarrow> f x w'
     | (Panicked v, w') \<Rightarrow> (Panicked v, w')
     | (Blocked, w') \<Rightarrow> (Blocked, w'))"

definition get :: "(world \<Rightarrow> 'a) \<Rightarrow> 'a prog" where
  "get f w = (Returned (f w), w)"

definition modify :: "(world \<Rightarrow> world) \<Rightarrow> unit prog" where
  "modify f w = (Returned (), f w)"

text \<open>\<open>defer\<close>: the deferred call runs when the function returns and when it panics.\<close>

definition deferred :: "(world \<Rightarrow> world) \<Rightarrow> 'a prog \<Rightarrow> 'a prog" where
  "deferred d m w = (case m w of
       (Returned x, w') \<Rightarrow> (Returned x, d w')
     | (Panicked v, w') \<Rightarrow> (Panicked v, d w')
     | (Blocked, w') \<Rightarrow> (Blocked, w'))"

text \<open>A function literal whose deferred call recovers, with what the recovery makes of the panic.\<close>

definition recovering :: "(string \<Rightarrow> 'a) \<Rightarrow> 'a prog \<Rightarrow> 'a prog" where
  "recovering h m w = (case m w of
       (Panicked v, w') \<Rightarrow> (Returned (h v), w')
     | (r, w') \<Rightarrow> (r, w'))"

abbreviation nil_dereference :: string where
  "nil_dereference \<equiv> ''runtime error: invalid memory address or nil pointer dereference''"

lemma bind_Returned [simp]: "m w = (Returned x, w') \<Longrightarrow> bind m f w = f x w'"
  by (simp add: bind_def)

lemma bind_Panicked [simp]: "m w = (Panicked v, w') \<Longrightarrow> bind m f w = (Panicked v, w')"
  by (simp add: bind_def)

lemma bind_Blocked [simp]: "m w = (Blocked, w') \<Longrightarrow> bind m f w = (Blocked, w')"
  by (simp add: bind_def)

lemma bind_return [simp]: "bind (return x) f = f x"
  by (simp add: bind_def return_def fun_eq_iff)

lemma bind_return_right [simp]: "bind m return = m"
  by (auto simp: bind_def return_def fun_eq_iff split: result.splits prod.splits)

lemma bind_assoc: "bind (bind m f) g = bind m (\<lambda>x. bind (f x) g)"
  by (auto simp: bind_def fun_eq_iff split: result.splits prod.splits)

lemma bind_bind_Returned: "bind m f w = (Returned x, w') \<Longrightarrow> bind m (\<lambda>y. bind (f y) g) w = g x w'"
  unfolding bind_assoc [symmetric] by simp

lemma bind_get [simp]: "bind (get f) g w = g (f w) w"
  by (simp add: bind_def get_def)

lemma bind_modify [simp]: "bind (modify f) g w = g () (f w)"
  by (simp add: bind_def modify_def)

lemma bind_panic [simp]: "bind (panic v) f = panic v"
  by (simp add: bind_def panic_def fun_eq_iff)

lemma bind_ReturnedE:
  assumes "bind m f w = (Returned y, w'')"
  obtains x w' where "m w = (Returned x, w')" and "f x w' = (Returned y, w'')"
  using assms by (auto simp: bind_def split: result.splits prod.splits)

lemma deferred_Returned [simp]: "m w = (Returned x, w') \<Longrightarrow> deferred d m w = (Returned x, d w')"
  by (simp add: deferred_def)

lemma deferred_Panicked [simp]: "m w = (Panicked v, w') \<Longrightarrow> deferred d m w = (Panicked v, d w')"
  by (simp add: deferred_def)

lemma recovering_Returned [simp]: "m w = (Returned x, w') \<Longrightarrow> recovering h m w = (Returned x, w')"
  by (simp add: recovering_def)

lemma recovering_Panicked [simp]: "m w = (Panicked v, w') \<Longrightarrow> recovering h m w = (Returned (h v), w')"
  by (simp add: recovering_def)

subsection \<open>What every program does to the world: relations kept along the way\<close>

definition steps :: "(world \<Rightarrow> world \<Rightarrow> bool) \<Rightarrow> 'a prog \<Rightarrow> bool" where
  "steps R m \<longleftrightarrow> (\<forall>w. R w (snd (m w)))"

lemma stepsD: "steps R m \<Longrightarrow> m w = (r, w') \<Longrightarrow> R w w'"
  by (metis snd_conv steps_def)

text \<open>
  A relation between the world before and after that composes. Proved once here: what is
  built from programs that keep it keeps it.
\<close>

locale world_order =
  fixes R :: "world \<Rightarrow> world \<Rightarrow> bool"
  assumes R_refl: "R w w"
    and R_trans: "R u v \<Longrightarrow> R v w \<Longrightarrow> R u w"
begin

lemma steps_return: "steps R (return x)"
  by (simp add: steps_def return_def R_refl)

lemma steps_panic: "steps R (panic v)"
  by (simp add: steps_def panic_def R_refl)

lemma steps_get: "steps R (get f)"
  by (simp add: steps_def get_def R_refl)

lemma steps_modify: "(\<And>w. R w (f w)) \<Longrightarrow> steps R (modify f)"
  by (simp add: steps_def modify_def)

lemma steps_bind: "steps R m \<Longrightarrow> (\<And>x. steps R (f x)) \<Longrightarrow> steps R (bind m f)"
  unfolding steps_def bind_def
  by (auto split: result.splits prod.splits; metis R_trans snd_conv)

lemma steps_deferred: "steps R m \<Longrightarrow> (\<And>w. R w (d w)) \<Longrightarrow> steps R (deferred d m)"
  unfolding steps_def deferred_def
  by (auto split: result.splits prod.splits; metis R_trans snd_conv)

lemma steps_recovering: "steps R m \<Longrightarrow> steps R (recovering h m)"
  unfolding steps_def recovering_def
  by (auto split: result.splits prod.splits; metis snd_conv)

lemma steps_if: "(b \<Longrightarrow> steps R m) \<Longrightarrow> (\<not> b \<Longrightarrow> steps R n) \<Longrightarrow> steps R (if b then m else n)"
  by simp

lemma steps_option: "steps R m \<Longrightarrow> (\<And>x. v = Some x \<Longrightarrow> steps R (f x)) \<Longrightarrow> steps R (case_option m f v)"
  by (cases v) simp_all

lemma steps_prod: "(\<And>x y. steps R (f x y)) \<Longrightarrow> steps R (case_prod f p)"
  by (cases p) simp

lemmas steps_rules = steps_return steps_panic steps_get steps_bind steps_recovering
  steps_if steps_option steps_prod

end

interpretation clock: world_order "\<lambda>w w'. w_now w \<le> w_now w'"
  by unfold_locales simp_all

interpretation traced: world_order "\<lambda>w w'. prefix (w_trace w) (w_trace w')"
  by unfold_locales auto

subsection \<open>Clock, choices and memory\<close>

text \<open>\<open>time.Now()\<close>.\<close>

definition go_now :: "instant prog" where
  "go_now w = (let t = w_now w + int (w_tick w (w_pos w))
     in (Returned t, w\<lparr>w_now := t, w_pos := Suc (w_pos w)\<rparr>))"

definition pick_case :: "bool prog" where
  "pick_case w = (Returned (w_choice w (w_pos w)), w\<lparr>w_pos := Suc (w_pos w)\<rparr>)"

text \<open>\<open>rand.Float64()\<close>: a number from 0 up to but not including 1.\<close>

definition go_rand :: "rat prog" where
  "go_rand w = (Returned (frac (w_rand w (w_pos w))), w\<lparr>w_pos := Suc (w_pos w)\<rparr>)"

definition map_order :: "string list \<Rightarrow> string list prog" where
  "map_order ks w = (Returned (w_order w (w_pos w) ks), w\<lparr>w_pos := Suc (w_pos w)\<rparr>)"

text \<open>\<open>ctx.Err()\<close>: the end that was due, or a cancel function of the context or of a parent.\<close>

definition ctx_error :: "ctx \<Rightarrow> world \<Rightarrow> go_error option" where
  "ctx_error c w = (case ctx_err c (w_now w) of
       Some e \<Rightarrow> Some e
     | None \<Rightarrow> if \<exists>i \<in> set (ctx_ids c). i \<in> w_cancelled w then Some Canceled else None)"

definition cancel :: "nat \<Rightarrow> world \<Rightarrow> world" where
  "cancel i w = w\<lparr>w_cancelled := insert i (w_cancelled w)\<rparr>"

text \<open>\<open>context.WithTimeout\<close>: the child context and the identity of its cancel function.\<close>

definition new_timeout :: "ctx \<Rightarrow> duration \<Rightarrow> (ctx \<times> nat) prog" where
  "new_timeout c d w = (let i = w_next w
     in (Returned (with_timeout i (w_now w) d c, i), w\<lparr>w_next := Suc i\<rparr>))"

definition alloc_reader :: "reader \<Rightarrow> nat prog" where
  "alloc_reader r w = (let i = w_next w
     in (Returned i, w\<lparr>w_next := Suc i, w_readers := (w_readers w)(i := r)\<rparr>))"

definition alloc_request :: "request \<Rightarrow> nat prog" where
  "alloc_request r w = (let i = w_next w
     in (Returned i, w\<lparr>w_next := Suc i, w_requests := (w_requests w)(i := r)\<rparr>))"

text \<open>Assignment to fields of \<open>*req\<close>.\<close>

definition set_request :: "nat \<Rightarrow> (request \<Rightarrow> request) \<Rightarrow> unit prog" where
  "set_request i f = modify (\<lambda>w. w\<lparr>w_requests := (w_requests w)(i := f (w_requests w i))\<rparr>)"

text \<open>\<open>req.WithContext(ctx)\<close>: a shallow copy, with the same header and the same body.\<close>

definition with_context :: "nat \<Rightarrow> ctx \<Rightarrow> nat prog" where
  "with_context i c = bind (get (\<lambda>w. (w_requests w i)\<lparr>rq_ctx := c\<rparr>)) alloc_request"

subsection \<open>Reading and closing bodies\<close>

text \<open>
  \<open>io.ReadAll\<close>: the bytes up to the end, with the error that ended them if it was not \<open>EOF\<close>. A
  body whose context is done, or that is closed, gives an error at once.
\<close>

definition read_all :: "nat \<Rightarrow> (bytes \<times> go_error option) prog" where
  "read_all i w =
     (let r = w_readers w i
      in if rd_closed r
         then (Returned ([], Some (ErrorString ''http: read on closed response body'')), w)
         else (case (case rd_ctx r of None \<Rightarrow> None | Some c \<Rightarrow> ctx_error c w) of
             Some e \<Rightarrow> (Returned ([], Some e), w)
           | None \<Rightarrow> (Returned (rd_data r, rd_fail r), w\<lparr>w_readers := (w_readers w)(i := r\<lparr>rd_data := []\<rparr>)\<rparr>)))"

text \<open>\<open>io.ReadAll(io.LimitReader(body, n))\<close>: with \<open>n\<close> bytes there, the end is not reached.\<close>

definition read_limited :: "nat \<Rightarrow> int \<Rightarrow> (bytes \<times> go_error option) prog" where
  "read_limited i n w =
     (let r = w_readers w i
      in if n \<le> 0 then (Returned ([], None), w)
         else if rd_closed r
         then (Returned ([], Some (ErrorString ''http: read on closed response body'')), w)
         else (case (case rd_ctx r of None \<Rightarrow> None | Some c \<Rightarrow> ctx_error c w) of
             Some e \<Rightarrow> (Returned ([], Some e), w)
           | None \<Rightarrow>
               (Returned (take (nat n) (rd_data r), if n \<le> int (length (rd_data r)) then None else rd_fail r),
                w\<lparr>w_readers := (w_readers w)(i := r\<lparr>rd_data := drop (nat n) (rd_data r)\<rparr>)\<rparr>)))"

definition close_body :: "nat \<Rightarrow> unit prog" where
  "close_body i = modify (\<lambda>w. w\<lparr>w_readers := (w_readers w)(i := close_reader (w_readers w i))\<rparr>)"

text \<open>\<open>resp.Body.Close()\<close>, which panics when \<open>Body\<close> is nil.\<close>

definition close_response :: "response \<Rightarrow> unit prog" where
  "close_response r = (case rs_body r of None \<Rightarrow> panic nil_dereference | Some i \<Rightarrow> close_body i)"

text \<open>\<open>io.NopCloser(bytes.NewReader(b))\<close>.\<close>

definition new_bytes_reader :: "bytes \<Rightarrow> nat prog" where
  "new_bytes_reader b = alloc_reader (bytes_reader b)"

subsection \<open>Waiting: \<open>select\<close> on a context and a timer\<close>

text \<open>
  The two-way \<open>select\<close> of the retry loop. The timer fires \<open>d\<close> after now, or at once; the context
  may be done already, or end at an instant it knows. When both are ready, the choice is the
  environment's. The result says whether the timer was received from.
\<close>

definition timer_or_done :: "ctx \<Rightarrow> duration \<Rightarrow> bool prog" where
  "timer_or_done c d =
     bind (get (\<lambda>w. w)) (\<lambda>w.
       let fire = w_now w + max 0 d;
           timer = bind (modify (\<lambda>w. w\<lparr>w_now := fire, w_trace := w_trace w @ [Slept d]\<rparr>)) (\<lambda>_. return True)
       in if ctx_error c w \<noteq> None
          then (if d \<le> 0 then bind pick_case (\<lambda>b. if b then timer else return False) else return False)
          else (case ctx_done c of
              None \<Rightarrow> timer
            | Some (t, e) \<Rightarrow>
                if t < fire then bind (modify (\<lambda>w. w\<lparr>w_now := t\<rparr>)) (\<lambda>_. return False)
                else if t = fire then
                  bind pick_case (\<lambda>b. if b then timer
                    else bind (modify (\<lambda>w. w\<lparr>w_now := t\<rparr>)) (\<lambda>_. return False))
                else timer))"

subsection \<open>Metrics recorders\<close>

text \<open>
  The values of a field of type \<open>MetricsRecorder\<close>: nil, the recorder that does nothing, one of
  the user's, or the client's own, which forwards to the one it wraps.
\<close>

datatype recorder =
    NilRecorder
  | NoopRecorder
  | UserRecorder nat
  | StatsRecorder nat recorder

fun record_metric :: "recorder \<Rightarrow> metric \<Rightarrow> world \<Rightarrow> world" where
  "record_metric NilRecorder m w = w"
| "record_metric NoopRecorder m w = w"
| "record_metric (UserRecorder i) m w = w\<lparr>w_trace := w_trace w @ [Metric i m]\<rparr>"
| "record_metric (StatsRecorder a inner) m w =
     record_metric inner m (w\<lparr>w_stats := (w_stats w)(a := stats_record m (w_stats w a))\<rparr>)"

text \<open>\<open>if x.metrics != nil { x.metrics.Record...(...) }\<close>.\<close>

definition report :: "recorder \<Rightarrow> metric \<Rightarrow> unit prog" where
  "report r m = modify (record_metric r m)"

text \<open>The recorders that a recorder forwards to, itself included.\<close>

fun recorder_stats :: "recorder \<Rightarrow> nat set" where
  "recorder_stats (StatsRecorder a inner) = insert a (recorder_stats inner)"
| "recorder_stats r = {}"

subsection \<open>Hooks\<close>

record hooks =
  BeforeRequest :: "(nat \<Rightarrow> go_error option prog) option"
  AfterResponse :: "(nat \<Rightarrow> response option \<Rightarrow> go_error option \<Rightarrow> unit prog) option"
  OnRetry :: "(nat \<Rightarrow> int \<Rightarrow> duration \<Rightarrow> unit prog) option"
  OnStateChange :: "(string \<Rightarrow> cb_state \<Rightarrow> cb_state \<Rightarrow> unit prog) option"
  OnFallback :: "(nat \<Rightarrow> go_error \<Rightarrow> unit prog) option"

definition no_hooks :: hooks where
  "no_hooks = \<lparr>BeforeRequest = None, AfterResponse = None, OnRetry = None, OnStateChange = None,
     OnFallback = None\<rparr>"

text \<open>\<open>if h != nil { h(...) }\<close> for a hook without a result.\<close>

definition call_hook :: "('f \<Rightarrow> unit prog) \<Rightarrow> 'f option \<Rightarrow> unit prog" where
  "call_hook k h = (case h of None \<Rightarrow> return () | Some f \<Rightarrow> k f)"

subsection \<open>The wire\<close>

text \<open>
  What a theorem may assume of the innermost policy function, \<open>http.Client.Do\<close>: the \<open>k\<close>-th
  request sent gets the \<open>k\<close>-th reply of a script, it is seen as the request object has it at that
  moment, with the bytes its body then has, and what belongs to the client is left alone.
\<close>

fun is_sent :: "event \<Rightarrow> bool" where
  "is_sent (Sent m u b) = True"
| "is_sent e = False"

definition sent :: "world \<Rightarrow> event list" where
  "sent w = filter is_sent (w_trace w)"

definition body_bytes :: "world \<Rightarrow> nat \<Rightarrow> bytes" where
  "body_bytes w req = (case rq_body (w_requests w req) of None \<Rightarrow> [] | Some i \<Rightarrow> rd_data (w_readers w i))"

definition sent_event :: "world \<Rightarrow> nat \<Rightarrow> event" where
  "sent_event w req = Sent (rq_method (w_requests w req)) (rq_url (w_requests w req)) (body_bytes w req)"

definition wire :: "(nat \<Rightarrow> reply) \<Rightarrow> policy_func \<Rightarrow> bool" where
  "wire script next \<longleftrightarrow> (\<forall>c req w. fst (next c req w) = Returned (script (length (sent w))) \<and>
     sent (snd (next c req w)) = sent w @ [sent_event w req] \<and>
     w_requests (snd (next c req w)) = w_requests w \<and>
     w_cancelled (snd (next c req w)) = w_cancelled w \<and>
     w_now w \<le> w_now (snd (next c req w)))"

text \<open>One function that is such a wire.\<close>

definition scripted :: "(nat \<Rightarrow> reply) \<Rightarrow> policy_func" where
  "scripted script c req w =
     (Returned (script (length (sent w))), w\<lparr>w_trace := w_trace w @ [sent_event w req]\<rparr>)"

lemma scripted_wire: "wire script (scripted script)"
  by (simp add: wire_def scripted_def sent_def sent_event_def)

text \<open>Programs that put nothing on the wire.\<close>

interpretation quiet: world_order "\<lambda>w w'. sent w' = sent w"
  by unfold_locales simp_all

abbreviation sends_nothing :: "'a prog \<Rightarrow> bool" where
  "sends_nothing \<equiv> steps (\<lambda>w w'. sent w' = sent w)"

lemma wireE:
  assumes "wire script next"
  obtains w' where "next c req w = (Returned (script (length (sent w))), w')"
    and "sent w' = sent w @ [sent_event w req]" and "w_requests w' = w_requests w"
    and "w_cancelled w' = w_cancelled w" and "w_now w \<le> w_now w'"
  using assms unfolding wire_def by (metis prod.collapse)

text \<open>A context that nothing ends.\<close>

definition endless :: "ctx \<Rightarrow> bool" where
  "endless c \<longleftrightarrow> ctx_done c = None \<and> ctx_ids c = []"

lemma endless_error [simp]: "endless c \<Longrightarrow> ctx_error c w = None"
  by (simp add: endless_def ctx_error_def ctx_err_def)

lemma timer_endless:
  "endless c \<Longrightarrow> timer_or_done c d w = (Returned True,
     w\<lparr>w_now := w_now w + max 0 d, w_trace := w_trace w @ [Slept d]\<rparr>)"
  by (simp add: timer_or_done_def endless_def Let_def return_def ctx_error_def ctx_err_def)

subsection \<open>Facts about the operations\<close>

lemma new_timeout_eval:
  "new_timeout c d w =
     (Returned (with_timeout (w_next w) (w_now w) d c, w_next w), w\<lparr>w_next := Suc (w_next w)\<rparr>)"
  by (simp add: new_timeout_def Let_def)

lemma with_context_eval:
  "with_context i c w = (Returned (w_next w), w\<lparr>w_next := Suc (w_next w),
     w_requests := (w_requests w)(w_next w := (w_requests w i)\<lparr>rq_ctx := c\<rparr>)\<rparr>)"
  by (simp add: with_context_def alloc_request_def Let_def)

lemma w_now_go_now: "go_now w = (Returned t, w') \<Longrightarrow> w_now w' = t \<and> w_now w \<le> t"
  by (auto simp: go_now_def Let_def)

lemma record_metric_keeps [simp]:
  "w_now (record_metric r m w) = w_now w"
  "w_pos (record_metric r m w) = w_pos w"
  "w_next (record_metric r m w) = w_next w"
  "w_requests (record_metric r m w) = w_requests w"
  "w_headers (record_metric r m w) = w_headers w"
  "w_readers (record_metric r m w) = w_readers w"
  "w_cancelled (record_metric r m w) = w_cancelled w"
  "w_circuits (record_metric r m w) = w_circuits w"
  "w_budgets (record_metric r m w) = w_budgets w"
  "w_adaptives (record_metric r m w) = w_adaptives w"
  "w_caches (record_metric r m w) = w_caches w"
  "w_checkers (record_metric r m w) = w_checkers w"
  "w_memory (record_metric r m w) = w_memory w"
  "w_float (record_metric r m w) = w_float w"
  "w_parse_time (record_metric r m w) = w_parse_time w"
  by (induction r m w rule: record_metric.induct) simp_all

lemma record_metric_stats_other:
  "a \<notin> recorder_stats r \<Longrightarrow> w_stats (record_metric r m w) a = w_stats w a"
  by (induction r m w rule: record_metric.induct) simp_all

lemma record_metric_trace: "prefix (w_trace w) (w_trace (record_metric r m w))"
  by (induction r m w rule: record_metric.induct) simp_all

lemma sent_record_metric [simp]: "sent (record_metric r m w) = sent w"
  by (induction r m w rule: record_metric.induct) (simp_all add: sent_def)

lemma ctx_error_mono:
  "ctx_error c w = Some e \<Longrightarrow> w_now w \<le> w_now w' \<Longrightarrow> w_cancelled w \<subseteq> w_cancelled w' \<Longrightarrow>
   ctx_error c w' \<noteq> None"
  by (auto simp: ctx_error_def dest: ctx_err_mono split: option.splits if_splits)

lemma ctx_error_cancelled: "i \<in> set (ctx_ids c) \<Longrightarrow> i \<in> w_cancelled w \<Longrightarrow> ctx_error c w \<noteq> None"
  by (auto simp: ctx_error_def split: option.splits)

lemma ctx_error_timeout: "ctx_error (with_timeout i now d c) (cancel i w) \<noteq> None"
  by (rule ctx_error_cancelled [of i]) (simp_all add: with_timeout_def cancel_def)

subsection \<open>The basic programs send nothing\<close>

lemma go_now_quiet: "sends_nothing go_now"
  by (simp add: steps_def go_now_def sent_def Let_def)

lemma go_rand_quiet: "sends_nothing go_rand"
  by (simp add: steps_def go_rand_def sent_def)

lemma pick_case_quiet: "sends_nothing pick_case"
  by (simp add: steps_def pick_case_def sent_def)

lemma report_quiet: "sends_nothing (report r m)"
  by (simp add: steps_def report_def modify_def)

lemma close_body_quiet: "sends_nothing (close_body i)"
  by (simp add: steps_def close_body_def modify_def sent_def)

lemma alloc_reader_quiet: "sends_nothing (alloc_reader r)"
  by (simp add: steps_def alloc_reader_def sent_def Let_def)

lemma set_request_quiet: "sends_nothing (set_request i f)"
  by (simp add: steps_def set_request_def modify_def sent_def)

lemma close_response_quiet: "sends_nothing (close_response r)"
  unfolding close_response_def by (intro quiet.steps_rules close_body_quiet)

lemma read_all_quiet: "sends_nothing (read_all i)"
  by (simp add: steps_def read_all_def sent_def Let_def split: option.split)

lemma read_limited_quiet: "sends_nothing (read_limited i n)"
  by (simp add: steps_def read_limited_def sent_def Let_def split: option.split)

lemma call_hook_quiet: "(\<And>f. h = Some f \<Longrightarrow> sends_nothing (k f)) \<Longrightarrow> sends_nothing (call_hook k h)"
  by (cases h) (simp_all add: call_hook_def quiet.steps_return)

lemma set_now_quiet: "sends_nothing (modify (\<lambda>w. w\<lparr>w_now := t\<rparr>))"
  "sends_nothing (modify (\<lambda>w. w\<lparr>w_now := t, w_trace := w_trace w @ [Slept d]\<rparr>))"
  by (simp_all add: steps_def modify_def sent_def)

lemma timer_or_done_quiet: "sends_nothing (timer_or_done c d)"
  unfolding timer_or_done_def Let_def
  by (intro quiet.steps_rules set_now_quiet pick_case_quiet)

lemmas quiet_rules = quiet.steps_rules go_now_quiet go_rand_quiet pick_case_quiet report_quiet
  close_body_quiet alloc_reader_quiet set_request_quiet close_response_quiet read_all_quiet
  read_limited_quiet timer_or_done_quiet

text \<open>Programs that send at most \<open>n\<close> requests.\<close>

definition sends_le :: "nat \<Rightarrow> 'a prog \<Rightarrow> bool" where
  "sends_le n m \<longleftrightarrow> (\<forall>w. length (sent (snd (m w))) \<le> length (sent w) + n)"

lemma sends_bind: "sends_le a m \<Longrightarrow> (\<And>x. sends_le b (f x)) \<Longrightarrow> sends_le (a + b) (bind m f)"
  unfolding sends_le_def bind_def
  by (auto split: result.splits prod.splits intro: order_trans)
    (smt (verit, best) add.assoc add.commute add_le_cancel_left le_trans snd_conv
      le_add1)+

lemma sends_mono: "sends_le a m \<Longrightarrow> a \<le> b \<Longrightarrow> sends_le b m"
  unfolding sends_le_def by (meson add_left_mono order_trans)

lemma sends_quiet: "sends_nothing m \<Longrightarrow> sends_le 0 m"
  by (simp add: sends_le_def steps_def)

lemma sends_bind_quiet: "sends_nothing m \<Longrightarrow> (\<And>x. sends_le n (f x)) \<Longrightarrow> sends_le n (bind m f)"
  using sends_bind [OF sends_quiet, of m n f] by simp

lemma sends_if: "sends_le n a \<Longrightarrow> sends_le n b \<Longrightarrow> sends_le n (if q then a else b)"
  by simp

lemma sends_zero: "sends_nothing m \<Longrightarrow> sends_le n m"
  using sends_mono [OF sends_quiet] by blast

subsection \<open>A world to evaluate programs in\<close>

text \<open>Request 0 is a GET of \<open>/a\<close> without a body; the clock stands still.\<close>

definition example_request :: request where
  "example_request = \<lparr>rq_method = MethodGet, rq_url = ''http://h/a'', rq_path = ''/a'', rq_header = 0,
     rq_body = None, rq_get_body = None, rq_content_length = 0, rq_ctx = ctx_background\<rparr>"

definition example_response :: "int \<Rightarrow> response" where
  "example_response s = \<lparr>rs_status = s, rs_header = \<lambda>_. None, rs_body = Some 0, rs_content_length = 0\<rparr>"

definition still_world :: world where
  "still_world = \<lparr>w_now = 0, w_pos = 0, w_tick = \<lambda>_. 0, w_choice = \<lambda>_. False, w_rand = \<lambda>_. 0,
     w_order = \<lambda>_ ks. ks, w_float = exact_float, w_parse_time = \<lambda>_. None, w_next = 1,
     w_requests = \<lambda>_. example_request, w_headers = \<lambda>_ _. None, w_readers = \<lambda>_. bytes_reader [],
     w_cancelled = {}, w_circuits = \<lambda>_. new_circuit, w_budgets = \<lambda>_. NewRetryBudget exact_float 0 0 0,
     w_adaptives = \<lambda>_. NewAdaptiveTimeout \<lparr>ac_Initial = 0, ac_Percentile = 0, ac_Window = 0, ac_MinSamples = 0\<rparr>,
     w_caches = \<lambda>_. [], w_stats = \<lambda>_. newStatsRecorder 0,
     w_checkers = \<lambda>_. None, w_memory = \<lambda>_. \<lparr>Alloc = 0, TotalAlloc = 0, Sys = 0, NumGC = 0\<rparr>, w_trace = []\<rparr>"

lemma endless_background [simp]: "endless ctx_background"
  by (simp add: endless_def ctx_background_def)

lemma sent_still [simp]: "sent still_world = []"
  by (simp add: sent_def still_world_def)

end
