(* ===== verification/Backoff.thy ===== *)
theory Backoff
  imports Floats
begin

section \<open>Backoff strategies: \<open>backoff.go\<close>\<close>

text \<open>
  The three implementations of the interface \<open>Backoff\<close> and, as \<open>CustomBackoff\<close>, one supplied by
  the user. The draw \<open>u\<close> of \<open>rand.Float64()\<close> is an argument. Durations are 64-bit: the linear
  strategy's sum and product wrap around. The locale \<open>bounded_backoff\<close> is what a client of the
  interface may rely on, with the total waiting time of a client that calls it once per
  attempt; it is interpreted on each of the code's strategies.
\<close>

record expBackoff =
  exp_initial :: duration
  exp_max :: duration
  exp_multiplier :: rat
  exp_jitter :: rat

record linearBackoff =
  lin_initial :: duration
  lin_max :: duration
  lin_step :: duration

datatype backoff =
    ExponentialBackoff expBackoff
  | ConstantBackoff duration
  | LinearBackoff linearBackoff
  | CustomBackoff "int \<Rightarrow> duration"

definition exp_next_delay :: "float_env \<Rightarrow> rat \<Rightarrow> expBackoff \<Rightarrow> int \<Rightarrow> duration" where
  "exp_next_delay fe u e attempt =
     (let attempt = (if attempt < 0 then 0 else attempt);
          d = fl_mul fe (fl_of_int fe (exp_initial e)) (fl_pow fe (exp_multiplier e) (fl_of_int fe attempt));
          d = (if d > fl_of_int fe (exp_max e) then fl_of_int fe (exp_max e) else d);
          d = (if exp_jitter e > 0 then
                 (let delta = fl_mul fe d (exp_jitter e);
                      d = fl_add fe (fl_sub fe d delta) (fl_mul fe (fl_mul fe u 2) delta)
                  in if d < 0 then 0 else d)
               else d)
      in fl_to_int64 fe d)"

definition const_next_delay :: "duration \<Rightarrow> int \<Rightarrow> duration" where
  "const_next_delay d attempt = d"

definition linear_next_delay :: "linearBackoff \<Rightarrow> int \<Rightarrow> duration" where
  "linear_next_delay l attempt =
     (let d = wrap64 (lin_initial l + wrap64 (lin_step l * attempt))
      in if d > lin_max l then lin_max l
         else if d < 0 then 0
         else d)"

fun next_delay :: "float_env \<Rightarrow> rat \<Rightarrow> backoff \<Rightarrow> int \<Rightarrow> duration" where
  "next_delay fe u (ExponentialBackoff e) attempt = exp_next_delay fe u e attempt"
| "next_delay fe u (ConstantBackoff d) attempt = const_next_delay d attempt"
| "next_delay fe u (LinearBackoff l) attempt = linear_next_delay l attempt"
| "next_delay fe u (CustomBackoff f) attempt = f attempt"

subsection \<open>The interface\<close>

locale bounded_backoff =
  fixes delay :: "int \<Rightarrow> duration" and hi :: duration
  assumes delay_nonneg: "0 \<le> delay n"
    and delay_le: "delay n \<le> hi"
begin

lemma hi_nonneg: "0 \<le> hi"
  using delay_nonneg delay_le by (meson order_trans)

text \<open>The waits of \<open>n\<close> attempts, counted from 0 as the retry loop counts them.\<close>

lemma total_wait: "(\<Sum>k<n. delay (int k)) \<le> int n * hi"
  using sum_mono [of "{..<n}" "\<lambda>k. delay (int k)" "\<lambda>_. hi"] delay_le by simp

lemma total_wait_nonneg: "0 \<le> (\<Sum>k<n. delay (int k))"
  by (intro sum_nonneg) (simp add: delay_nonneg)

end

subsection \<open>The linear strategy\<close>

lemma linear_bounds:
  "0 \<le> lin_max l \<Longrightarrow> 0 \<le> linear_next_delay l n \<and> linear_next_delay l n \<le> lin_max l"
  by (simp add: linear_next_delay_def Let_def)

lemma linear_exact:
  assumes "0 \<le> lin_initial l" and "0 \<le> lin_step l" and "0 \<le> n"
    and "lin_initial l + lin_step l * n \<le> max_int64"
  shows "linear_next_delay l n = min (lin_max l) (lin_initial l + lin_step l * n)"
proof -
  have p: "0 \<le> lin_step l * n" using assms by simp
  then have "wrap64 (lin_step l * n) = lin_step l * n"
    using assms by (intro wrap64_id) linarith+
  moreover have "wrap64 (lin_initial l + lin_step l * n) = lin_initial l + lin_step l * n"
    using assms p by (intro wrap64_id) linarith+
  moreover have "\<not> lin_initial l + lin_step l * n < 0"
    using assms p by linarith
  ultimately show ?thesis
    by (simp add: linear_next_delay_def Let_def)
qed

lemma linear_mono:
  assumes "0 \<le> lin_initial l" and "0 \<le> lin_step l" and "0 \<le> m" and "m \<le> n"
    and "lin_initial l + lin_step l * n \<le> max_int64"
  shows "linear_next_delay l m \<le> linear_next_delay l n"
proof -
  have "lin_step l * m \<le> lin_step l * n"
    using assms by (intro mult_left_mono) simp_all
  with assms show ?thesis
    by (simp add: linear_exact)
qed

text \<open>While the sum fits in 64 bits, the wait is exact, and a later one is no shorter.\<close>

lemma linear_backoff_exact:
  assumes "0 \<le> lin_initial l" and "0 \<le> lin_step l" and "0 \<le> m" and "m \<le> n"
    and "lin_initial l + lin_step l * n \<le> max_int64"
  shows "linear_next_delay l n = min (lin_max l) (lin_initial l + lin_step l * n) \<and>
    linear_next_delay l m \<le> linear_next_delay l n"
  using linear_exact [OF assms(1,2) _ assms(5)] linear_mono [OF assms] assms(3,4) by simp

text \<open>
  The product of step and attempt can wrap below zero; the wait then drops to nothing. This is
  a step of one hour at attempt 2562048.
\<close>

lemma linear_wraps:
  "linear_next_delay \<lparr>lin_initial = 0, lin_max = 24 * hour, lin_step = hour\<rparr> 2562048 = 0"
  "linear_next_delay \<lparr>lin_initial = 0, lin_max = 24 * hour, lin_step = hour\<rparr> 2562047 = 24 * hour"
  by (simp_all add: linear_next_delay_def wrap64_def)

subsection \<open>The exponential strategy\<close>

definition exp_base :: "float_env \<Rightarrow> expBackoff \<Rightarrow> int \<Rightarrow> rat" where
  "exp_base fe e n = min (fl_of_int fe (exp_max e))
     (fl_mul fe (fl_of_int fe (exp_initial e)) (fl_pow fe (exp_multiplier e) (fl_of_int fe (max 0 n))))"

lemma exp_base_bounds:
  assumes "float_ok fe" and "0 \<le> exp_initial e" and "0 \<le> exp_multiplier e"
    and "0 \<le> exp_max e" and "exp_max e \<le> 9007199254740992"
  shows "0 \<le> exp_base fe e n" and "exp_base fe e n \<le> of_int (exp_max e)"
proof -
  have "0 \<le> fl_pow fe (exp_multiplier e) k" for k
    using assms by (simp add: float_ok_def)
  then have "0 \<le> fl_mul fe (fl_of_int fe (exp_initial e)) (fl_pow fe (exp_multiplier e) k)" for k
    using assms by (simp add: fl_mul_def fl_round_nonneg fl_of_int_nonneg)
  then show "0 \<le> exp_base fe e n" and "exp_base fe e n \<le> of_int (exp_max e)"
    using assms by (simp_all add: exp_base_def fl_of_int_exact)
qed

lemma exp_no_jitter:
  "exp_jitter e \<le> 0 \<Longrightarrow> exp_next_delay fe u e n = fl_to_int64 fe (exp_base fe e n)"
  by (simp add: exp_next_delay_def exp_base_def Let_def max_def min_def)

lemma exp_bounds_no_jitter:
  assumes "float_ok fe" and "0 \<le> exp_initial e" and "0 \<le> exp_multiplier e"
    and "0 \<le> exp_max e" and "exp_max e \<le> 9007199254740992" and "exp_jitter e \<le> 0"
  shows "0 \<le> exp_next_delay fe u e n \<and> exp_next_delay fe u e n \<le> exp_max e"
  using exp_base_bounds [OF assms(1-5), of n] assms(6)
  using fl_to_int64_le [of "exp_base fe e n" "exp_max e" fe] fl_to_int64_nonneg [of "exp_base fe e n" "exp_max e" fe]
    assms(5) by (simp add: exp_no_jitter)

text \<open>The value after jitter, before the conversion to an integer.\<close>

definition jittered :: "float_env \<Rightarrow> rat \<Rightarrow> rat \<Rightarrow> rat \<Rightarrow> rat" where
  "jittered fe u j d = max 0
     (fl_add fe (fl_sub fe d (fl_mul fe d j)) (fl_mul fe (fl_mul fe u 2) (fl_mul fe d j)))"

lemma exp_with_jitter:
  "0 < exp_jitter e \<Longrightarrow>
   exp_next_delay fe u e n = fl_to_int64 fe (jittered fe u (exp_jitter e) (exp_base fe e n))"
  by (simp add: exp_next_delay_def exp_base_def jittered_def Let_def max_def min_def)

lemma jittered_upper:
  assumes ok: "float_ok fe" and d: "0 \<le> d" "d \<le> of_int m" and m: "0 \<le> m" "m \<le> 1125899906842624"
    and j: "0 < j" "j \<le> 1" and u: "0 \<le> u" "u < 1"
  shows "jittered fe u j d < 2 * of_int m + 1"
proof -
  let ?delta = "fl_mul fe d j"
  have dj: "d * j \<le> of_int m"
    using d j mult_mono [of d "of_int m" j 1] by simp
  have delta: "0 \<le> ?delta" "?delta \<le> of_int m"
    using ok d j m dj fl_round_le_int [OF ok dj] by (simp_all add: fl_mul_def fl_round_nonneg)
  have two: "fl_mul fe u 2 \<le> 2" "0 \<le> fl_mul fe u 2"
    using ok u fl_round_le_int [OF ok, of "u * 2" 2] by (simp_all add: fl_mul_def fl_round_nonneg)
  have prod: "fl_mul fe u 2 * ?delta \<le> 2 * ?delta" "0 \<le> fl_mul fe u 2 * ?delta"
    using two delta by (simp_all add: mult_right_mono)
  let ?s = "fl_sub fe d ?delta" and ?t = "fl_mul fe (fl_mul fe u 2) ?delta"
  have s: "?s \<le> d - ?delta + (of_int m * float_eps + float_eps)" "0 - of_int m \<le> ?s"
    using fl_round_upper [OF ok, of "d - ?delta" "of_int m"] fl_round_ge_int [OF ok, of "- m" "d - ?delta"]
      d delta m by (simp_all add: fl_sub_def)
  have "?t \<le> fl_round fe (2 * ?delta)"
    using prod(1) ok by (simp add: fl_mul_def [of _ "fl_mul fe u 2"] fl_round_mono)
  then have t: "?t \<le> 2 * ?delta + (2 * of_int m * float_eps + float_eps)" "0 \<le> ?t"
    using fl_round_upper [OF ok, of "2 * ?delta" "2 * of_int m"] delta prod(2) ok
    by (simp_all add: fl_mul_def [of _ "fl_mul fe u 2"] fl_round_nonneg)
  let ?b = "4 * of_int m + 1 :: rat"
  have "\<bar>?s + ?t\<bar> \<le> ?b"
    using s t d delta m by linarith
  then have "fl_add fe ?s ?t \<le> ?s + ?t + (?b * float_eps + float_eps)"
    unfolding fl_add_def by (rule fl_round_upper [OF ok])
  also have "\<dots> \<le> 2 * of_int m + (7 * of_int m * float_eps + 4 * float_eps)"
    using s(1) t(1) d(2) delta(2) by (simp add: field_simps)
  also have "\<dots> < 2 * of_int m + 1"
  proof -
    have "(of_int m :: rat) \<le> 1125899906842624"
      using m(2) by (metis of_int_le_iff of_int_numeral)
    then show ?thesis by (simp add: field_simps)
  qed
  finally show ?thesis
    using m by (simp add: jittered_def)
qed

lemma exp_bounds_jitter:
  assumes "float_ok fe" and "0 \<le> exp_initial e" and "0 \<le> exp_multiplier e"
    and "0 \<le> exp_max e" and "exp_max e \<le> 1125899906842624"
    and "0 < exp_jitter e" and "exp_jitter e \<le> 1" and "0 \<le> u" and "u < 1"
  shows "0 \<le> exp_next_delay fe u e n \<and> exp_next_delay fe u e n \<le> 2 * exp_max e"
proof -
  have "0 \<le> exp_base fe e n" "exp_base fe e n \<le> of_int (exp_max e)"
    using exp_base_bounds [OF assms(1-4), of n] assms(5) by simp_all
  then have "jittered fe u (exp_jitter e) (exp_base fe e n) < of_int (2 * exp_max e) + 1"
    using jittered_upper [OF assms(1) _ _ assms(4-9)] by simp
  moreover have "0 \<le> jittered fe u (exp_jitter e) (exp_base fe e n)"
    by (simp add: jittered_def)
  ultimately show ?thesis
    using fl_to_int64_le [of _ "2 * exp_max e" fe] fl_to_int64_nonneg [of _ "2 * exp_max e" fe] assms(5)
    by (simp add: exp_with_jitter [OF assms(6)])
qed

text \<open>With jitter the wait can be above \<open>max\<close>: jitter is applied after the bound.\<close>

lemma exp_above_max:
  "exp_next_delay exact_float (99/100)
     \<lparr>exp_initial = 100 * millisecond, exp_max = 5 * second, exp_multiplier = 2, exp_jitter = 1/5\<rparr> 6
   = 5980 * millisecond"
  by (simp add: exp_next_delay_def exact_float_def fl_mul_def fl_add_def fl_sub_def fl_of_int_def
      fl_to_int64_def fl_to_int_def Let_def)

subsection \<open>The strategies keep the interface's contract\<close>

text \<open>What makes a strategy bounded, and its bound.\<close>

fun backoff_ok :: "backoff \<Rightarrow> bool" where
  "backoff_ok (ExponentialBackoff e) \<longleftrightarrow>
     0 \<le> exp_initial e \<and> 0 \<le> exp_multiplier e \<and> 0 \<le> exp_max e \<and>
     exp_max e \<le> 1125899906842624 \<and> exp_jitter e \<le> 1"
| "backoff_ok (ConstantBackoff d) \<longleftrightarrow> 0 \<le> d"
| "backoff_ok (LinearBackoff l) \<longleftrightarrow> 0 \<le> lin_max l"
| "backoff_ok (CustomBackoff f) \<longleftrightarrow> False"

fun backoff_bound :: "backoff \<Rightarrow> duration" where
  "backoff_bound (ExponentialBackoff e) = (if 0 < exp_jitter e then 2 * exp_max e else exp_max e)"
| "backoff_bound (ConstantBackoff d) = d"
| "backoff_bound (LinearBackoff l) = lin_max l"
| "backoff_bound (CustomBackoff f) = 0"

lemma next_delay_bounds:
  assumes "float_ok fe" and "backoff_ok b" and "0 \<le> u" and "u < 1"
  shows "0 \<le> next_delay fe u b n \<and> next_delay fe u b n \<le> backoff_bound b"
proof (cases b)
  case (ExponentialBackoff e)
  show ?thesis
  proof (cases "0 < exp_jitter e")
    case True
    with assms ExponentialBackoff show ?thesis
      using exp_bounds_jitter [of fe e u n] by simp
  next
    case False
    with assms ExponentialBackoff show ?thesis
      using exp_bounds_no_jitter [of fe e u n] by simp
  qed
next
  case (LinearBackoff l)
  with assms show ?thesis using linear_bounds by simp
qed (use assms in \<open>simp_all add: const_next_delay_def\<close>)

lemma next_delay_bounded_backoff:
  assumes "float_ok fe" and "backoff_ok b" and "\<And>n. 0 \<le> u n \<and> u n < 1"
  shows "bounded_backoff (\<lambda>n. next_delay fe (u n) b n) (backoff_bound b)"
  by unfold_locales (use assms next_delay_bounds in auto)

interpretation constant_backoff: bounded_backoff "const_next_delay (int d)" "int d" for d
  by unfold_locales (simp_all add: const_next_delay_def)

interpretation linear_backoff: bounded_backoff
  "linear_next_delay \<lparr>lin_initial = i, lin_max = int m, lin_step = s\<rparr>" "int m" for i m s
  using linear_bounds [of "\<lparr>lin_initial = i, lin_max = int m, lin_step = s\<rparr>"]
  by unfold_locales simp_all

interpretation exact_exponential_backoff: bounded_backoff
  "exp_next_delay exact_float 0
     \<lparr>exp_initial = int i, exp_max = int (min m 1125899906842624), exp_multiplier = of_nat k, exp_jitter = 0\<rparr>"
  "int (min m 1125899906842624)" for i m k
  using exp_bounds_no_jitter [OF exact_float_ok, of "\<lparr>exp_initial = int i,
      exp_max = int (min m 1125899906842624), exp_multiplier = of_nat k, exp_jitter = 0\<rparr>"]
  by unfold_locales simp_all

end
