(* ===== verification/Retry.thy ===== *)
theory Retry
  imports World Backoff
begin

section \<open>The retry policy: \<open>retry.go\<close>\<close>

text \<open>
  \<open>retry_execute\<close> is \<open>RetryPolicy.Execute\<close>: it buffers the request's body, then runs the loop
  \<open>retry_loop\<close>, whose recursion is the loop's next iteration. \<open>should_retry\<close>, \<open>retry_delay\<close> and
  \<open>parse_retry_after\<close> are the methods of the same names. The number of attempts is
  \<open>MaxRetries + 1\<close> in 64 bits. \<open>http.ParseTime\<close> is a parameter of the world.

  The lemmas say what the loop does against a wire that answers from a script: which reply is
  returned, how often the request is sent and with which body, and what the error at the end is.
\<close>

record retry_config =
  rc_Backoff :: "backoff option"
  rc_ShouldRetry :: "(response option \<Rightarrow> go_error option \<Rightarrow> bool) option"
  rc_InitialBackoff :: duration
  rc_MaxBackoff :: duration
  rc_Multiplier :: rat
  rc_Jitter :: rat
  rc_MaxRetries :: int
  rc_MaxBodySize :: int

record retry_policy =
  rp_hooks :: hooks
  rp_backoff :: backoff
  rp_metrics :: recorder
  rp_logger :: logger
  rp_cfg :: retry_config
  rp_budget :: "nat option"

definition DefaultRetryConfig :: retry_config where
  "DefaultRetryConfig = \<lparr>rc_Backoff = None, rc_ShouldRetry = None,
     rc_InitialBackoff = 100 * millisecond, rc_MaxBackoff = 5 * second, rc_Multiplier = 2,
     rc_Jitter = 1 / 5, rc_MaxRetries = 3, rc_MaxBodySize = 0\<rparr>"

definition applyRetryDefaults :: "retry_config \<Rightarrow> retry_config" where
  "applyRetryDefaults cfg =
     (let def = DefaultRetryConfig;
          cfg = (if rc_InitialBackoff cfg = 0 then cfg\<lparr>rc_InitialBackoff := rc_InitialBackoff def\<rparr> else cfg);
          cfg = (if rc_MaxBackoff cfg = 0 then cfg\<lparr>rc_MaxBackoff := rc_MaxBackoff def\<rparr> else cfg);
          cfg = (if rc_Multiplier cfg = 0 then cfg\<lparr>rc_Multiplier := rc_Multiplier def\<rparr> else cfg);
          cfg = (if rc_MaxRetries cfg < 0 then cfg\<lparr>rc_MaxRetries := 0\<rparr> else cfg);
          cfg = (if rc_Jitter cfg < 0 then cfg\<lparr>rc_Jitter := 0\<rparr> else cfg);
          cfg = (if rc_Jitter cfg > 1 then cfg\<lparr>rc_Jitter := 1\<rparr> else cfg);
          cfg = (if rc_Backoff cfg = None
                 then cfg\<lparr>rc_Backoff := Some (ExponentialBackoff
                   \<lparr>exp_initial = rc_InitialBackoff cfg, exp_max = rc_MaxBackoff cfg,
                    exp_multiplier = rc_Multiplier cfg, exp_jitter = rc_Jitter cfg\<rparr>)\<rparr>
                 else cfg)
      in cfg)"

definition NewRetry :: "retry_config \<Rightarrow> retry_policy" where
  "NewRetry cfg =
     (let cfg = applyRetryDefaults cfg
      in \<lparr>rp_hooks = no_hooks, rp_backoff = the (rc_Backoff cfg), rp_metrics = NilRecorder,
          rp_logger = DefaultLogger, rp_cfg = cfg, rp_budget = None\<rparr>)"

subsection \<open>Whether to retry\<close>

definition isIdempotent :: "string \<Rightarrow> bool" where
  "isIdempotent meth \<longleftrightarrow>
     meth \<in> {MethodGet, MethodHead, MethodPut, MethodDelete, MethodOptions, MethodTrace}"

definition budget_ask :: "nat \<Rightarrow> bool prog" where
  "budget_ask a = bind go_now (\<lambda>now w.
     (let (ok, rb) = budget_allow (w_float w) now (w_budgets w a)
      in (Returned ok, w\<lparr>w_budgets := (w_budgets w)(a := rb)\<rparr>)))"

definition retryable :: "retry_config \<Rightarrow> string \<Rightarrow> reply \<Rightarrow> bool" where
  "retryable cfg meth r =
     (case rc_ShouldRetry cfg of
        Some f \<Rightarrow> f (fst r) (snd r)
      | None \<Rightarrow>
          if \<not> isIdempotent meth then False
          else if snd r \<noteq> None then True
          else (case fst r of
              None \<Rightarrow> False
            | Some resp \<Rightarrow> rs_status resp = StatusTooManyRequests \<or>
                rs_status resp = StatusServiceUnavailable \<or> rs_status resp \<ge> 500))"

text \<open>\<open>Execute\<close> has dereferenced \<open>req\<close> before, so the test \<open>req == nil\<close> never holds there.\<close>

definition should_retry :: "retry_policy \<Rightarrow> nat option \<Rightarrow> reply \<Rightarrow> bool prog" where
  "should_retry p req r =
     (if errors_as is_permanent (snd r) \<noteq> None then return False
      else (case req of
          None \<Rightarrow> return (snd r \<noteq> None)
        | Some i \<Rightarrow>
            bind (case rp_budget p of None \<Rightarrow> return True | Some a \<Rightarrow> budget_ask a) (\<lambda>allowed.
              if \<not> allowed then return False
              else get (\<lambda>w. retryable (rp_cfg p) (rq_method (w_requests w i)) r))))"

subsection \<open>How long to wait\<close>

abbreviation max_delay :: duration where "max_delay \<equiv> 365 * 24 * hour"

definition parse_retry_after :: "response \<Rightarrow> duration prog" where
  "parse_retry_after resp =
     (let h = header_get (rs_header resp) ''Retry-After''
      in if h = '''' then return 0
         else (case atoi h of
             Some secs \<Rightarrow>
               return (if secs < 0 then 0
                       else if secs > max_int64 div second then max_delay
                       else (let d = wrap64 (secs * second) in if d > max_delay then max_delay else d))
           | None \<Rightarrow>
               bind (get (\<lambda>w. w_parse_time w h)) (\<lambda>t.
                 case t of
                   None \<Rightarrow> return 0
                 | Some t \<Rightarrow> bind go_now (\<lambda>now.
                     let d = t - now
                     in return (if d < 0 then 0 else if d > max_delay then max_delay else d)))))"

definition backoff_delay :: "backoff \<Rightarrow> int \<Rightarrow> duration prog" where
  "backoff_delay b attempt = bind go_rand (\<lambda>u. get (\<lambda>w. next_delay (w_float w) u b attempt))"

definition retry_delay :: "retry_policy \<Rightarrow> response option \<Rightarrow> int \<Rightarrow> duration prog" where
  "retry_delay p resp attempt =
     bind (backoff_delay (rp_backoff p) attempt) (\<lambda>delay.
       case resp of
         None \<Rightarrow> return delay
       | Some r \<Rightarrow>
           if rs_status r = StatusTooManyRequests \<or> rs_status r = StatusServiceUnavailable
           then bind (parse_retry_after r) (\<lambda>ra.
             return (if ra > 0
                     then (if rc_MaxBackoff (rp_cfg p) > 0 \<and> ra > rc_MaxBackoff (rp_cfg p)
                           then rc_MaxBackoff (rp_cfg p) else ra)
                     else delay))
           else return delay)"

subsection \<open>The body\<close>

text \<open>
  The first part of \<open>Execute\<close>: an error to return at once, or the buffered body. A request
  without a body has none.
\<close>

definition set_body :: "nat \<Rightarrow> bytes \<Rightarrow> unit prog" where
  "set_body req bs = bind (new_bytes_reader bs) (\<lambda>i. set_request req (\<lambda>r. r\<lparr>rq_body := Some i\<rparr>))"

definition buffer_body :: "retry_config \<Rightarrow> nat \<Rightarrow> (go_error + bytes option) prog" where
  "buffer_body cfg req =
     bind (get (\<lambda>w. rq_body (w_requests w req))) (\<lambda>body.
       case body of
         None \<Rightarrow> return (Inr None)
       | Some i \<Rightarrow>
           bind (if rc_MaxBodySize cfg > 0 then read_limited i (wrap64 (rc_MaxBodySize cfg + 1))
                 else read_all i)
             (\<lambda>(bs, err).
               case err of
                 Some e \<Rightarrow> return (Inl (errorf_tw ''retry: read body'' e))
               | None \<Rightarrow>
                   if rc_MaxBodySize cfg > 0 \<and> int (length bs) > rc_MaxBodySize cfg
                   then return (Inl (ErrorString (''retry: body size '' @ itoa (int (length bs))
                     @ '' exceeds max '' @ itoa (rc_MaxBodySize cfg))))
                   else
                     bind (close_body i) (\<lambda>_.
                     bind (set_body req bs) (\<lambda>_.
                     bind (set_request req (\<lambda>r. r\<lparr>rq_get_body := Some bs,
                         rq_content_length := int (length bs)\<rparr>)) (\<lambda>_.
                     return (Inr (Some bs)))))))"

subsection \<open>The loop\<close>

definition statusFromResp :: "response option \<Rightarrow> int" where
  "statusFromResp r = (case r of None \<Rightarrow> 0 | Some r \<Rightarrow> rs_status r)"

definition lastErrOrStatus :: "reply \<Rightarrow> go_error" where
  "lastErrOrStatus r = (case snd r of
       Some e \<Rightarrow> e
     | None \<Rightarrow> (case fst r of
           Some resp \<Rightarrow> ErrorString (''status '' @ itoa (rs_status resp))
         | None \<Rightarrow> ErrorString ''unknown''))"

definition close_if_some :: "response option \<Rightarrow> unit prog" where
  "close_if_some r = (case r of None \<Rightarrow> return () | Some resp \<Rightarrow> close_response resp)"

definition exhausted_error :: "string \<Rightarrow> string \<Rightarrow> int \<Rightarrow> reply \<Rightarrow> go_error" where
  "exhausted_error meth url attempts prev =
     RequestError meth url (Some (errorf_ww ErrMaxRetries (lastErrOrStatus prev))) ''retry''
       (statusFromResp (fst prev)) attempts"

definition retry_exhausted :: "nat \<Rightarrow> int \<Rightarrow> reply \<Rightarrow> reply prog" where
  "retry_exhausted req attempts prev =
     bind (close_if_some (fst prev)) (\<lambda>_.
     get (\<lambda>w. (None, Some (exhausted_error (rq_method (w_requests w req)) (rq_url (w_requests w req))
       attempts prev))))"

function retry_loop ::
  "retry_policy \<Rightarrow> ctx \<Rightarrow> nat \<Rightarrow> policy_func \<Rightarrow> bytes option \<Rightarrow> int \<Rightarrow> int \<Rightarrow> reply \<Rightarrow> reply prog" where
  "retry_loop p c req next body attempts attempt prev =
     (if attempt < attempts
      then
        bind (case body of None \<Rightarrow> return () | Some bs \<Rightarrow> set_body req bs) (\<lambda>_.
        bind (next c req) (\<lambda>r.
        bind (should_retry p (Some req) r) (\<lambda>should.
          if \<not> should then return r
          else if attempt = attempts - 1 then retry_exhausted req attempts r
          else
            bind (retry_delay p (fst r) attempt) (\<lambda>delay.
            bind (call_hook (\<lambda>f. f req attempt delay) (OnRetry (rp_hooks p))) (\<lambda>_.
            bind (get (\<lambda>w. w_requests w req)) (\<lambda>rq.
            bind (report (rp_metrics p) (MRetry (rq_method rq) (rq_url rq) (attempt + 1))) (\<lambda>_.
            bind (timer_or_done c delay) (\<lambda>fired.
            bind (close_if_some (fst r)) (\<lambda>_.
              if fired then retry_loop p c req next body attempts (attempt + 1) r
              else bind (get (ctx_error c)) (\<lambda>e. return (None, e))))))))))
      )
      else retry_exhausted req attempts prev)"
  by pat_completeness auto
termination by (relation "measure (\<lambda>(p, c, req, next, body, attempts, attempt, prev). nat (attempts - attempt))") auto

declare retry_loop.simps [simp del]

definition retry_execute :: "retry_policy \<Rightarrow> ctx \<Rightarrow> nat \<Rightarrow> policy_func \<Rightarrow> reply prog" where
  "retry_execute p c req next =
     bind (buffer_body (rp_cfg p) req) (\<lambda>b.
       case b of
         Inl e \<Rightarrow> return (None, Some e)
       | Inr body \<Rightarrow> retry_loop p c req next body (wrap64 (rc_MaxRetries (rp_cfg p) + 1)) 0 (None, None))"

subsection \<open>What the parts of an attempt do\<close>

text \<open>Steps that touch nothing but the clock, the environment's choices and the trace of metrics.\<close>

definition idle :: "world \<Rightarrow> world \<Rightarrow> bool" where
  "idle w w' \<longleftrightarrow> sent w' = sent w \<and> w_requests w' = w_requests w \<and> w_readers w' = w_readers w \<and>
     w_cancelled w' = w_cancelled w \<and> w_now w \<le> w_now w'"

interpretation idle: world_order idle
  by unfold_locales (auto simp: idle_def)

definition total_prog :: "'a prog \<Rightarrow> bool" where
  "total_prog m \<longleftrightarrow> (\<forall>w. \<exists>x w'. m w = (Returned x, w') \<and> idle w w')"

lemma total_progE:
  assumes "total_prog m" obtains x w' where "m w = (Returned x, w')" "idle w w'"
  using assms unfolding total_prog_def by blast

lemma total_return: "total_prog (return x)"
  by (auto simp: total_prog_def return_def idle.R_refl)

lemma total_get: "total_prog (get f)"
  by (auto simp: total_prog_def get_def idle.R_refl)

lemma total_bind: "total_prog m \<Longrightarrow> (\<And>x. total_prog (f x)) \<Longrightarrow> total_prog (bind m f)"
  unfolding total_prog_def by (metis bind_Returned idle.R_trans)

lemma total_go_now: "total_prog go_now"
  by (auto simp: total_prog_def go_now_def idle_def sent_def Let_def)

lemma total_go_rand: "total_prog go_rand"
  by (auto simp: total_prog_def go_rand_def idle_def sent_def)

lemma total_report: "total_prog (report r m)"
  by (auto simp: total_prog_def report_def modify_def idle_def)

lemma total_if: "total_prog m \<Longrightarrow> total_prog n \<Longrightarrow> total_prog (if b then m else n)"
  by simp

lemma total_option: "total_prog m \<Longrightarrow> (\<And>x. total_prog (f x)) \<Longrightarrow> total_prog (case_option m f v)"
  by (cases v) simp_all

lemma report_timer:
  assumes "endless c"
  shows "\<exists>w'. bind (report r m) (\<lambda>_. timer_or_done c d) w = (Returned True, w') \<and> idle w w'"
  using assms
  by (auto simp: report_def timer_endless idle_def sent_def [of "w_trace_update f v" for f v])
    (simp_all flip: sent_def)

lemmas total_rules = total_return total_get total_bind total_go_now total_go_rand total_report
  total_if total_option

lemma total_parse_retry_after: "total_prog (parse_retry_after r)"
  unfolding parse_retry_after_def Let_def by (intro total_rules)

lemma total_retry_delay: "total_prog (retry_delay p r n)"
  unfolding retry_delay_def backoff_delay_def by (intro total_rules total_parse_retry_after)

definition again :: "retry_policy \<Rightarrow> string \<Rightarrow> reply \<Rightarrow> bool" where
  "again p meth r \<longleftrightarrow> errors_as is_permanent (snd r) = None \<and> retryable (rp_cfg p) meth r"

lemma should_retry_no_budget:
  "rp_budget p = None \<Longrightarrow>
   should_retry p (Some req) r w = (Returned (again p (rq_method (w_requests w req)) r), w)"
  by (simp add: should_retry_def again_def return_def get_def bind_def)

lemma close_if_some_ok:
  assumes "\<And>x. r = Some x \<Longrightarrow> rs_body x \<noteq> None"
  obtains w' where "close_if_some r w = (Returned (), w')" and "sent w' = sent w"
    and "w_requests w' = w_requests w" and "w_cancelled w' = w_cancelled w" and "w_now w' = w_now w"
  using assms
  by (cases r) (auto simp: close_if_some_def close_response_def close_body_def modify_def return_def sent_def
      split: option.splits)

text \<open>The body every attempt sends: the buffered one, or what a request without a buffer has.\<close>

definition body_ready :: "bytes option \<Rightarrow> world \<Rightarrow> nat \<Rightarrow> bool" where
  "body_ready body w req \<longleftrightarrow> body = None \<longrightarrow> rq_body (w_requests w req) = None"

definition attempt_event :: "bytes option \<Rightarrow> world \<Rightarrow> nat \<Rightarrow> event" where
  "attempt_event body w req = Sent (rq_method (w_requests w req)) (rq_url (w_requests w req))
     (case body of None \<Rightarrow> [] | Some bs \<Rightarrow> bs)"

text \<open>Two worlds in which an attempt sends the same request.\<close>

definition same_attempt :: "bytes option \<Rightarrow> nat \<Rightarrow> world \<Rightarrow> world \<Rightarrow> bool" where
  "same_attempt body req w w' \<longleftrightarrow>
     rq_method (w_requests w' req) = rq_method (w_requests w req) \<and>
     rq_url (w_requests w' req) = rq_url (w_requests w req) \<and>
     (body = None \<longrightarrow> rq_body (w_requests w' req) = rq_body (w_requests w req))"

lemma same_attempt_event: "same_attempt body req w w' \<Longrightarrow> attempt_event body w' req = attempt_event body w req"
  by (simp add: same_attempt_def attempt_event_def)

lemma same_attempt_ready: "same_attempt body req w w' \<Longrightarrow> body_ready body w req \<Longrightarrow> body_ready body w' req"
  by (simp add: same_attempt_def body_ready_def)

lemma same_attempt_trans:
  "same_attempt body req u v \<Longrightarrow> same_attempt body req v w \<Longrightarrow> same_attempt body req u w"
  by (simp add: same_attempt_def)

lemma same_attempt_eq: "w_requests w' = w_requests w \<Longrightarrow> same_attempt body req w w'"
  by (simp add: same_attempt_def)

lemma refresh_body:
  obtains w' where "(case body of None \<Rightarrow> return () | Some bs \<Rightarrow> set_body req bs) w = (Returned (), w')"
    and "sent w' = sent w" and "same_attempt body req w w'" and "w_now w' = w_now w"
    and "body_ready body w req \<Longrightarrow> sent_event w' req = attempt_event body w req"
proof (cases body)
  case None
  with that [of w] show ?thesis
    by (simp add: return_def same_attempt_def sent_event_def attempt_event_def body_ready_def body_bytes_def)
next
  case (Some bs)
  with that show ?thesis
    by (force simp: set_body_def new_bytes_reader_def alloc_reader_def set_request_def modify_def bind_def Let_def
        same_attempt_def sent_event_def attempt_event_def body_bytes_def bytes_reader_def sent_def)
qed

subsection \<open>One attempt\<close>

text \<open>Every response of the script has a body, as every response of \<open>net/http\<close> does.\<close>

definition bodied :: "(nat \<Rightarrow> reply) \<Rightarrow> bool" where
  "bodied script \<longleftrightarrow> (\<forall>k x. fst (script k) = Some x \<longrightarrow> rs_body x \<noteq> None)"

text \<open>An attempt that is retried, up to the \<open>select\<close>.\<close>

lemma retry_backs_off:
  assumes wire: "wire script next" and nb: "rp_budget p = None" and nh: "OnRetry (rp_hooks p) = None"
    and ready: "body_ready body w req" and less: "attempt < attempts - 1"
    and fails: "again p (rq_method (w_requests w req)) (script (length (sent w)))"
  obtains d w1 w2 where "retry_delay p (fst (script (length (sent w)))) attempt w1 = (Returned d, w2)"
    and "sent w2 = sent w @ [attempt_event body w req]" and "same_attempt body req w w2"
    and "w_now w \<le> w_now w2"
    and "retry_loop p c req next body attempts attempt prev w =
      bind (report (rp_metrics p) (MRetry (rq_method (w_requests w2 req)) (rq_url (w_requests w2 req)) (attempt + 1))) (\<lambda>_.
      bind (timer_or_done c d) (\<lambda>fired.
      bind (close_if_some (fst (script (length (sent w))))) (\<lambda>_.
        if fired then retry_loop p c req next body attempts (attempt + 1) (script (length (sent w)))
        else bind (get (ctx_error c)) (\<lambda>e. return (None, e))))) w2"
proof -
  let ?r = "script (length (sent w))"
  obtain w1 where w1: "(case body of None \<Rightarrow> return () | Some bs \<Rightarrow> set_body req bs) w = (Returned (), w1)"
    "sent w1 = sent w" "same_attempt body req w w1" "w_now w1 = w_now w"
    "sent_event w1 req = attempt_event body w req"
    using refresh_body [where body = body and req = req and w = w] ready by metis
  obtain w2 where w2: "next c req w1 = (Returned ?r, w2)" "sent w2 = sent w @ [attempt_event body w req]"
    "w_requests w2 = w_requests w1" "w_now w1 \<le> w_now w2"
    using wireE [OF wire, of c req w1] w1 by metis
  obtain d w3 where w3: "retry_delay p (fst ?r) attempt w2 = (Returned d, w3)" "idle w2 w3"
    using total_progE [OF total_retry_delay] .
  have "w_requests w3 = w_requests w1" using w2(3) w3(2) by (simp add: idle_def)
  then have s3: "same_attempt body req w w3" using w1(3) by (simp add: same_attempt_def)
  have m: "rq_method (w_requests w2 req) = rq_method (w_requests w req)"
    using w1(3) w2(3) by (simp add: same_attempt_def)
  have "retry_loop p c req next body attempts attempt prev w =
      bind (report (rp_metrics p) (MRetry (rq_method (w_requests w3 req)) (rq_url (w_requests w3 req)) (attempt + 1))) (\<lambda>_.
      bind (timer_or_done c d) (\<lambda>fired.
      bind (close_if_some (fst ?r)) (\<lambda>_.
        if fired then retry_loop p c req next body attempts (attempt + 1) ?r
        else bind (get (ctx_error c)) (\<lambda>e. return (None, e))))) w3"
    using fails w1(1) w2(1) w3(1) m less nh
    by (subst retry_loop.simps) (simp add: should_retry_no_budget [OF nb] call_hook_def)
  with that [OF w3(1) _ s3] w1(4) w2(2,4) w3(2) show ?thesis by (simp add: idle_def)
qed

lemma retry_attempt:
  assumes wire: "wire script next" and endl: "endless c" and nb: "rp_budget p = None"
    and nh: "OnRetry (rp_hooks p) = None"
    and bodies: "bodied script"
    and ready: "body_ready body w req" and less: "attempt < attempts"
  obtains w' where "sent w' = sent w @ [attempt_event body w req]" and "same_attempt body req w w'"
    and "retry_loop p c req next body attempts attempt prev w =
      (let r = script (length (sent w)) in
       if \<not> again p (rq_method (w_requests w req)) r then (Returned r, w')
       else if attempt = attempts - 1 then
         (Returned (None, Some (exhausted_error (rq_method (w_requests w req)) (rq_url (w_requests w req)) attempts r)), w')
       else retry_loop p c req next body attempts (attempt + 1) r w')"
proof -
  let ?r = "script (length (sent w))" and ?m = "rq_method (w_requests w req)"
    and ?u = "rq_url (w_requests w req)"
  obtain w1 where w1: "(case body of None \<Rightarrow> return () | Some bs \<Rightarrow> set_body req bs) w = (Returned (), w1)"
    "sent w1 = sent w" "same_attempt body req w w1" "sent_event w1 req = attempt_event body w req"
    using refresh_body [where body = body and req = req and w = w] ready by metis
  obtain w2 where w2: "next c req w1 = (Returned ?r, w2)" "sent w2 = sent w @ [attempt_event body w req]"
    "w_requests w2 = w_requests w1"
    using wireE [OF wire, of c req w1] w1 by metis
  have s2: "same_attempt body req w w2"
    using w1(3) w2(3) by (auto simp: same_attempt_def)
  then have mu: "rq_method (w_requests w2 req) = ?m" "rq_url (w_requests w2 req) = ?u"
    by (simp_all add: same_attempt_def)
  have bod: "\<And>x. fst ?r = Some x \<Longrightarrow> rs_body x \<noteq> None" using bodies by (simp add: bodied_def)
  show ?thesis
  proof (cases "again p ?m ?r")
    case False
    then have "retry_loop p c req next body attempts attempt prev w = (Returned ?r, w2)"
      using w1(1) w2(1) mu less
      by (subst retry_loop.simps) (simp add: should_retry_no_budget [OF nb] return_def)
    with that [of w2] w2(2) s2 False show ?thesis by (simp add: Let_def)
  next
    case True
    show ?thesis
    proof (cases "attempt = attempts - 1")
      case final: True
      obtain w3 where w3: "close_if_some (fst ?r) w2 = (Returned (), w3)" "sent w3 = sent w2"
        "w_requests w3 = w_requests w2"
        using close_if_some_ok [OF bod] by metis
      have s3: "same_attempt body req w w3" using s2 w3(3) by (simp add: same_attempt_def)
      have "retry_loop p c req next body attempts attempt prev w = retry_exhausted req attempts ?r w2"
        using True final w1(1) w2(1) mu
        by (subst retry_loop.simps) (simp add: should_retry_no_budget [OF nb])
      then have "retry_loop p c req next body attempts attempt prev w =
          (Returned (None, Some (exhausted_error ?m ?u attempts ?r)), w3)"
        using w1(3) w2(3) w3(1,3) mu by (simp add: retry_exhausted_def get_def)
      with that [of w3] True final w2(2) w3(2) s3 show ?thesis
        unfolding Let_def by presburger
    next
      case False
      with less have less': "attempt < attempts - 1" by linarith
      obtain d u1 u2 where "retry_delay p (fst ?r) attempt u1 = (Returned d, u2)"
        and u: "sent u2 = sent w @ [attempt_event body w req]" "same_attempt body req w u2"
        and "w_now w \<le> w_now u2" and loop: "retry_loop p c req next body attempts attempt prev w =
          bind (report (rp_metrics p) (MRetry (rq_method (w_requests u2 req)) (rq_url (w_requests u2 req)) (attempt + 1))) (\<lambda>_.
          bind (timer_or_done c d) (\<lambda>fired.
          bind (close_if_some (fst ?r)) (\<lambda>_.
            if fired then retry_loop p c req next body attempts (attempt + 1) ?r
            else bind (get (ctx_error c)) (\<lambda>e. return (None, e))))) u2"
        by (rule retry_backs_off [OF wire nb nh ready less' True])
      obtain w5 where w5: "bind (report (rp_metrics p) (MRetry (rq_method (w_requests u2 req)) (rq_url (w_requests u2 req)) (attempt + 1)))
          (\<lambda>_. timer_or_done c d) u2 = (Returned True, w5)" "idle u2 w5"
        using report_timer [OF endl] by blast
      obtain w6 where w6: "close_if_some (fst ?r) w5 = (Returned (), w6)" "sent w6 = sent w5"
        "w_requests w6 = w_requests w5"
        using close_if_some_ok [OF bod] by metis
      have s6: "same_attempt body req w w6"
        using u(2) w5(2) w6(3) by (simp add: same_attempt_def idle_def)
      have sent6: "sent w6 = sent w @ [attempt_event body w req]"
        using u(1) w5(2) w6(2) by (simp add: idle_def)
      have "retry_loop p c req next body attempts attempt prev w =
          bind (close_if_some (fst ?r)) (\<lambda>_. retry_loop p c req next body attempts (attempt + 1) ?r) w5"
        using loop bind_bind_Returned [of _ _ _ _ _ "\<lambda>fired. bind (close_if_some (fst ?r)) (\<lambda>_.
            if fired then retry_loop p c req next body attempts (attempt + 1) ?r
            else bind (get (ctx_error c)) (\<lambda>e. return (None, e)))", OF w5(1)] by simp
      then have "retry_loop p c req next body attempts attempt prev w =
          retry_loop p c req next body attempts (attempt + 1) ?r w6"
        using w6(1) by simp
      with that [OF sent6 s6] True False show ?thesis by (simp add: Let_def)
    qed
  qed
qed

subsection \<open>The whole loop\<close>

lemma retry_loop_stops:
  assumes wire: "wire script next" and endl: "endless c" and nb: "rp_budget p = None"
    and nh: "OnRetry (rp_hooks p) = None"
    and bodies: "bodied script"
    and "body_ready body w req"
    and "\<forall>i < j. again p (rq_method (w_requests w req)) (script (length (sent w) + i))"
    and "\<not> again p (rq_method (w_requests w req)) (script (length (sent w) + j))"
    and "attempt + int j < attempts"
  shows "fst (retry_loop p c req next body attempts attempt prev w) = Returned (script (length (sent w) + j)) \<and>
    sent (snd (retry_loop p c req next body attempts attempt prev w))
      = sent w @ replicate (Suc j) (attempt_event body w req)"
  using assms(6-9)
proof (induction j arbitrary: w attempt prev)
  case 0
  then show ?case
    by - (rule retry_attempt [OF wire endl nb nh bodies, of body w req attempt attempts prev];
      auto simp: Let_def)
next
  case (Suc j)
  have less: "attempt < attempts" using Suc.prems by linarith
  obtain w' where w': "sent w' = sent w @ [attempt_event body w req]" "same_attempt body req w w'"
    "retry_loop p c req next body attempts attempt prev w =
      (let r = script (length (sent w)) in
       if \<not> again p (rq_method (w_requests w req)) r then (Returned r, w')
       else if attempt = attempts - 1 then
         (Returned (None, Some (exhausted_error (rq_method (w_requests w req)) (rq_url (w_requests w req)) attempts r)), w')
       else retry_loop p c req next body attempts (attempt + 1) r w')"
    using retry_attempt [OF wire endl nb nh bodies Suc.prems(1) less, of prev] by blast
  have m: "rq_method (w_requests w' req) = rq_method (w_requests w req)" "length (sent w') = Suc (length (sent w))"
    using w' by (simp_all add: same_attempt_def)
  have "again p (rq_method (w_requests w req)) (script (length (sent w)))" "attempt \<noteq> attempts - 1"
    using Suc.prems by force+
  with w'(3) have step: "retry_loop p c req next body attempts attempt prev w =
      retry_loop p c req next body attempts (attempt + 1) (script (length (sent w))) w'"
    by (simp add: Let_def)
  have "\<forall>i < j. again p (rq_method (w_requests w' req)) (script (length (sent w') + i))"
    using Suc.prems(2) m by auto
  moreover have "\<not> again p (rq_method (w_requests w' req)) (script (length (sent w') + j))"
    using Suc.prems(3) m by simp
  ultimately show ?case
    using Suc.IH [of w' "attempt + 1" "script (length (sent w))"] Suc.prems(1,4) m w'(1)
      same_attempt_ready [OF w'(2)] same_attempt_event [OF w'(2)]
    by (simp add: step)
qed

lemma retry_loop_exhausts:
  assumes wire: "wire script next" and endl: "endless c" and nb: "rp_budget p = None"
    and nh: "OnRetry (rp_hooks p) = None"
    and bodies: "bodied script"
    and "body_ready body w req"
    and "\<forall>i \<le> n. again p (rq_method (w_requests w req)) (script (length (sent w) + i))"
    and "attempt + int n = attempts - 1"
  shows "fst (retry_loop p c req next body attempts attempt prev w) =
      Returned (None, Some (exhausted_error (rq_method (w_requests w req)) (rq_url (w_requests w req)) attempts
        (script (length (sent w) + n)))) \<and>
    sent (snd (retry_loop p c req next body attempts attempt prev w))
      = sent w @ replicate (Suc n) (attempt_event body w req)"
  using assms(6-8)
proof (induction n arbitrary: w attempt prev)
  case 0
  then show ?case
    by - (rule retry_attempt [OF wire endl nb nh bodies, of body w req attempt attempts prev];
      auto simp: Let_def)
next
  case (Suc n)
  have less: "attempt < attempts" using Suc.prems by linarith
  obtain w' where w': "sent w' = sent w @ [attempt_event body w req]" "same_attempt body req w w'"
    "retry_loop p c req next body attempts attempt prev w =
      (let r = script (length (sent w)) in
       if \<not> again p (rq_method (w_requests w req)) r then (Returned r, w')
       else if attempt = attempts - 1 then
         (Returned (None, Some (exhausted_error (rq_method (w_requests w req)) (rq_url (w_requests w req)) attempts r)), w')
       else retry_loop p c req next body attempts (attempt + 1) r w')"
    using retry_attempt [OF wire endl nb nh bodies Suc.prems(1) less, of prev] by blast
  have m: "rq_method (w_requests w' req) = rq_method (w_requests w req)"
    "rq_url (w_requests w' req) = rq_url (w_requests w req)" "length (sent w') = Suc (length (sent w))"
    using w' by (simp_all add: same_attempt_def)
  have "again p (rq_method (w_requests w req)) (script (length (sent w)))" "attempt \<noteq> attempts - 1"
    using Suc.prems by force+
  with w'(3) have step: "retry_loop p c req next body attempts attempt prev w =
      retry_loop p c req next body attempts (attempt + 1) (script (length (sent w))) w'"
    by (simp add: Let_def)
  have "\<forall>i \<le> n. again p (rq_method (w_requests w' req)) (script (length (sent w') + i))"
    using Suc.prems(2) m by auto
  then show ?case
    using Suc.IH [of w' "attempt + 1" "script (length (sent w))"] Suc.prems(1,3) m w'(1)
      same_attempt_ready [OF w'(2)] same_attempt_event [OF w'(2)]
    by (simp add: step)
qed

subsection \<open>The body is buffered once\<close>

text \<open>A body that can be read to its end.\<close>

definition plain_body :: "world \<Rightarrow> nat \<Rightarrow> bool" where
  "plain_body w i \<longleftrightarrow> \<not> rd_closed (w_readers w i) \<and> rd_ctx (w_readers w i) = None \<and>
     rd_fail (w_readers w i) = None"

definition body_fits :: "retry_config \<Rightarrow> bytes \<Rightarrow> bool" where
  "body_fits cfg bs \<longleftrightarrow> rc_MaxBodySize cfg \<le> 0 \<or>
     (int (length bs) \<le> rc_MaxBodySize cfg \<and> rc_MaxBodySize cfg < max_int64)"

lemma read_body_plain:
  assumes "plain_body w i" and "body_fits cfg (rd_data (w_readers w i))"
  shows "\<exists>w'. (if rc_MaxBodySize cfg > 0 then read_limited i (wrap64 (rc_MaxBodySize cfg + 1)) else read_all i) w
      = (Returned (rd_data (w_readers w i), None), w') \<and>
    sent w' = sent w \<and> w_requests w' = w_requests w \<and> w_cancelled w' = w_cancelled w"
  using assms
  by (auto simp: read_limited_def read_all_def plain_body_def body_fits_def Let_def sent_def wrap64_id)

lemma set_body_sent:
  obtains w' where "set_body req bs w = (Returned (), w')" and "sent w' = sent w"
    and "same_attempt (Some bs) req w w'" and "rq_body (w_requests w' req) \<noteq> None"
  by (auto simp: set_body_def new_bytes_reader_def alloc_reader_def set_request_def modify_def bind_def
      Let_def same_attempt_def sent_def)

lemma buffer_body_plain:
  assumes "rq_body (w_requests w req) = Some i" and "plain_body w i"
    and "body_fits cfg (rd_data (w_readers w i))"
  obtains w' where "buffer_body cfg req w = (Returned (Inr (Some (rd_data (w_readers w i)))), w')"
    and "sent w' = sent w" and "same_attempt (Some (rd_data (w_readers w i))) req w w'"
proof -
  let ?bs = "rd_data (w_readers w i)"
  obtain w1 where w1: "(if rc_MaxBodySize cfg > 0 then read_limited i (wrap64 (rc_MaxBodySize cfg + 1)) else read_all i) w
      = (Returned (?bs, None), w1)" "sent w1 = sent w" "w_requests w1 = w_requests w"
    using read_body_plain [OF assms(2,3)] by blast
  let ?w2 = "w1\<lparr>w_readers := (w_readers w1)(i := close_reader (w_readers w1 i))\<rparr>"
  obtain w3 where w3: "set_body req ?bs ?w2 = (Returned (), w3)" "sent w3 = sent ?w2"
    "same_attempt (Some ?bs) req ?w2 w3"
    using set_body_sent by metis
  let ?w4 = "w3\<lparr>w_requests := (w_requests w3)(req := (w_requests w3 req)
      \<lparr>rq_get_body := Some ?bs, rq_content_length := int (length ?bs)\<rparr>)\<rparr>"
  have "\<not> (rc_MaxBodySize cfg > 0 \<and> int (length ?bs) > rc_MaxBodySize cfg)"
    using assms(3) by (auto simp: body_fits_def)
  then have "buffer_body cfg req w = (Returned (Inr (Some ?bs)), ?w4)"
    using assms(1) w1(1) w3(1)
    by (simp add: buffer_body_def close_body_def set_request_def return_def)
  moreover have "sent ?w4 = sent w" using w1(2) w3(2) by (simp add: sent_def)
  moreover have "same_attempt (Some ?bs) req w ?w4"
    using w1(3) w3(3) by (simp add: same_attempt_def)
  ultimately show ?thesis by (rule that)
qed

lemma buffer_body_too_big:
  assumes "rq_body (w_requests w req) = Some i" and "plain_body w i"
    and "0 < rc_MaxBodySize cfg" and "rc_MaxBodySize cfg < int (length (rd_data (w_readers w i)))"
    and "rc_MaxBodySize cfg < max_int64"
  obtains e w' where "buffer_body cfg req w = (Returned (Inl e), w')" and "sent w' = sent w"
proof -
  have "wrap64 (rc_MaxBodySize cfg + 1) = rc_MaxBodySize cfg + 1"
    using assms(3,5) by (simp add: wrap64_id)
  moreover have "int (length (take (nat (rc_MaxBodySize cfg + 1)) (rd_data (w_readers w i)))) = rc_MaxBodySize cfg + 1"
    using assms(3,4) by simp
  ultimately show ?thesis
    using assms that
    by (auto simp: buffer_body_def read_limited_def plain_body_def Let_def return_def sent_def)
qed

text \<open>What \<open>Execute\<close> starts the loop with, for a request without a body or with a plain one.\<close>

definition sendable :: "retry_config \<Rightarrow> world \<Rightarrow> nat \<Rightarrow> bool" where
  "sendable cfg w req \<longleftrightarrow> (case rq_body (w_requests w req) of
       None \<Rightarrow> True
     | Some i \<Rightarrow> plain_body w i \<and> body_fits cfg (rd_data (w_readers w i)))"

lemma buffer_body_sendable:
  assumes "sendable cfg w req"
  obtains body w' where "buffer_body cfg req w = (Returned (Inr body), w')"
    and "sent w' = sent w" and "body_ready body w' req"
    and "rq_method (w_requests w' req) = rq_method (w_requests w req)"
    and "rq_url (w_requests w' req) = rq_url (w_requests w req)"
    and "attempt_event body w' req = sent_event w req"
proof (cases "rq_body (w_requests w req)")
  case None
  then show ?thesis
    by (intro that [of None w])
      (simp_all add: buffer_body_def return_def body_ready_def attempt_event_def sent_event_def body_bytes_def)
next
  case (Some i)
  then obtain w' where "buffer_body cfg req w = (Returned (Inr (Some (rd_data (w_readers w i)))), w')"
    "sent w' = sent w" "same_attempt (Some (rd_data (w_readers w i))) req w w'"
    using buffer_body_plain [OF Some] assms by (auto simp: sendable_def)
  with Some show ?thesis
    by (intro that [of "Some (rd_data (w_readers w i))" w'])
      (simp_all add: same_attempt_def body_ready_def attempt_event_def sent_event_def body_bytes_def)
qed

subsection \<open>Execute\<close>

definition attempts_of :: "retry_policy \<Rightarrow> int" where
  "attempts_of p = wrap64 (rc_MaxRetries (rp_cfg p) + 1)"

lemma attempts_of_eq:
  "0 \<le> rc_MaxRetries (rp_cfg p) \<Longrightarrow> rc_MaxRetries (rp_cfg p) < max_int64 \<Longrightarrow>
   attempts_of p = rc_MaxRetries (rp_cfg p) + 1"
  by (simp add: attempts_of_def wrap64_id)

lemma retry_execute_stops:
  assumes "wire script next" and "endless c" and "rp_budget p = None"
    and "OnRetry (rp_hooks p) = None" and "bodied script" and "sendable (rp_cfg p) w req"
    and "\<forall>i < j. again p (rq_method (w_requests w req)) (script (length (sent w) + i))"
    and "\<not> again p (rq_method (w_requests w req)) (script (length (sent w) + j))"
    and "int j < attempts_of p"
  shows "fst (retry_execute p c req next w) = Returned (script (length (sent w) + j)) \<and>
    sent (snd (retry_execute p c req next w)) = sent w @ replicate (Suc j) (sent_event w req)"
proof -
  obtain body w' where b: "buffer_body (rp_cfg p) req w = (Returned (Inr body), w')"
    "sent w' = sent w" "body_ready body w' req"
    "rq_method (w_requests w' req) = rq_method (w_requests w req)"
    "attempt_event body w' req = sent_event w req"
    using buffer_body_sendable [OF assms(6)] by metis
  show ?thesis
    using retry_loop_stops [OF assms(1-5) b(3), of j 0 "attempts_of p" "(None, None)"] assms(7-9) b
    by (simp add: retry_execute_def attempts_of_def)
qed

lemma retry_execute_exhausts:
  assumes "wire script next" and "endless c" and "rp_budget p = None"
    and "OnRetry (rp_hooks p) = None" and "bodied script" and "sendable (rp_cfg p) w req"
    and "0 \<le> rc_MaxRetries (rp_cfg p)" and "rc_MaxRetries (rp_cfg p) < max_int64"
    and "\<forall>i \<le> nat (rc_MaxRetries (rp_cfg p)).
      again p (rq_method (w_requests w req)) (script (length (sent w) + i))"
  shows "fst (retry_execute p c req next w) =
      Returned (None, Some (exhausted_error (rq_method (w_requests w req)) (rq_url (w_requests w req))
        (rc_MaxRetries (rp_cfg p) + 1) (script (length (sent w) + nat (rc_MaxRetries (rp_cfg p)))))) \<and>
    sent (snd (retry_execute p c req next w))
      = sent w @ replicate (nat (rc_MaxRetries (rp_cfg p)) + 1) (sent_event w req)"
proof -
  obtain body w' where b: "buffer_body (rp_cfg p) req w = (Returned (Inr body), w')"
    "sent w' = sent w" "body_ready body w' req"
    "rq_method (w_requests w' req) = rq_method (w_requests w req)"
    "rq_url (w_requests w' req) = rq_url (w_requests w req)"
    "attempt_event body w' req = sent_event w req"
    using buffer_body_sendable [OF assms(6)] by metis
  note at = attempts_of_eq [OF assms(7,8)]
  have "0 + int (nat (rc_MaxRetries (rp_cfg p))) = attempts_of p - 1"
    using at assms(7) by simp
  from retry_loop_exhausts [OF assms(1-5) b(3) _ this, of "(None, None)"] assms(9) b at
  show ?thesis by (simp add: retry_execute_def flip: attempts_of_def)
qed

lemma exhausted_error_is:
  "errors_is (Some (exhausted_error m u n r)) ErrMaxRetries"
  "snd r = Some e \<Longrightarrow> errors_is (Some (exhausted_error m u n r)) e"
  by (simp_all add: exhausted_error_def lastErrOrStatus_def)

subsection \<open>The number of attempts, whatever the next policy does\<close>

lemma budget_ask_quiet: "sends_nothing (budget_ask a)"
  unfolding budget_ask_def
  by (rule quiet.steps_bind [OF go_now_quiet]) (simp add: steps_def sent_def case_prod_beta)

lemma should_retry_quiet: "sends_nothing (should_retry p req r)"
  unfolding should_retry_def by (intro quiet_rules budget_ask_quiet)

lemma retry_delay_quiet: "sends_nothing (retry_delay p r n)"
  unfolding retry_delay_def backoff_delay_def parse_retry_after_def Let_def by (intro quiet_rules)

lemma close_if_some_quiet: "sends_nothing (close_if_some r)"
  unfolding close_if_some_def by (intro quiet_rules)

lemma retry_exhausted_quiet: "sends_nothing (retry_exhausted req n r)"
  unfolding retry_exhausted_def by (intro quiet_rules close_if_some_quiet)

lemma set_body_quiet: "sends_nothing (set_body req bs)"
  unfolding set_body_def new_bytes_reader_def by (intro quiet_rules)

lemma buffer_body_quiet: "sends_nothing (buffer_body cfg req)"
  unfolding buffer_body_def by (intro quiet_rules set_body_quiet)

lemma retry_loop_sends:
  assumes one: "\<And>c req. sends_le k (next c req)"
    and hook: "\<And>f req n d. OnRetry (rp_hooks p) = Some f \<Longrightarrow> sends_nothing (f req n d)"
  shows "sends_le (k * nat (attempts - attempt)) (retry_loop p c req next body attempts attempt prev)"
proof (induction "nat (attempts - attempt)" arbitrary: attempt prev)
  case 0
  then show ?case
    by (subst retry_loop.simps) (auto intro: sends_zero retry_exhausted_quiet)
next
  case (Suc n)
  have less: "attempt < attempts" and n: "n = nat (attempts - (attempt + 1))"
    using Suc.hyps(2) by linarith+
  have rest: "sends_le (k * n) (retry_loop p c req next body attempts (attempt + 1) r)" for r
    using Suc.hyps(1) [OF n] n by simp
  have body: "sends_nothing (case body of None \<Rightarrow> return () | Some bs \<Rightarrow> set_body req bs)"
    by (intro quiet_rules set_body_quiet)
  have cont: "sends_le (k * n) (bind (should_retry p (Some req) r) (\<lambda>should.
          if \<not> should then return r
          else if attempt = attempts - 1 then retry_exhausted req attempts r
          else
            bind (retry_delay p (fst r) attempt) (\<lambda>delay.
            bind (call_hook (\<lambda>f. f req attempt delay) (OnRetry (rp_hooks p))) (\<lambda>_.
            bind (get (\<lambda>w. w_requests w req)) (\<lambda>rq.
            bind (report (rp_metrics p) (MRetry (rq_method rq) (rq_url rq) (attempt + 1))) (\<lambda>_.
            bind (timer_or_done c delay) (\<lambda>fired.
            bind (close_if_some (fst r)) (\<lambda>_.
              if fired then retry_loop p c req next body attempts (attempt + 1) r
              else bind (get (ctx_error c)) (\<lambda>e. return (None, e)))))))))) " for r
    by (intro sends_if sends_bind_quiet should_retry_quiet retry_delay_quiet call_hook_quiet
        quiet.steps_get report_quiet timer_or_done_quiet close_if_some_quiet rest
        sends_zero [OF quiet.steps_return] sends_zero [OF retry_exhausted_quiet])
      (auto intro: hook)
  have "sends_le (k + k * n) (bind (next c req) (\<lambda>r. bind (should_retry p (Some req) r) (\<lambda>should.
          if \<not> should then return r
          else if attempt = attempts - 1 then retry_exhausted req attempts r
          else
            bind (retry_delay p (fst r) attempt) (\<lambda>delay.
            bind (call_hook (\<lambda>f. f req attempt delay) (OnRetry (rp_hooks p))) (\<lambda>_.
            bind (get (\<lambda>w. w_requests w req)) (\<lambda>rq.
            bind (report (rp_metrics p) (MRetry (rq_method rq) (rq_url rq) (attempt + 1))) (\<lambda>_.
            bind (timer_or_done c delay) (\<lambda>fired.
            bind (close_if_some (fst r)) (\<lambda>_.
              if fired then retry_loop p c req next body attempts (attempt + 1) r
              else bind (get (ctx_error c)) (\<lambda>e. return (None, e)))))))))))"
    by (rule sends_bind [OF one cont])
  then have "sends_le (k * Suc n) (retry_loop p c req next body attempts attempt prev)"
    using less by (subst retry_loop.simps) (auto intro: sends_bind_quiet [OF body])
  then show ?case using Suc.hyps(2) by simp
qed

lemma retry_execute_sends:
  assumes "\<And>c req. sends_le k (next c req)"
    and "\<And>f req n d. OnRetry (rp_hooks p) = Some f \<Longrightarrow> sends_nothing (f req n d)"
  shows "sends_le (k * nat (attempts_of p)) (retry_execute p c req next)"
proof -
  have loop: "sends_le (k * nat (attempts_of p)) (retry_loop p c req next body (attempts_of p) 0 r)" for body r
    by (rule sends_mono, rule retry_loop_sends) (use assms in auto)
  show ?thesis
    unfolding retry_execute_def attempts_of_def [symmetric]
    by (rule sends_bind_quiet [OF buffer_body_quiet])
      (auto split: sum.split intro: loop sends_zero [OF quiet.steps_return])
qed

subsection \<open>What is never retried, and how long the waits are\<close>

lemma never_again:
  "errors_as is_permanent (snd r) \<noteq> None \<or> (rc_ShouldRetry (rp_cfg p) = None \<and> \<not> isIdempotent meth) \<or>
   (rc_ShouldRetry (rp_cfg p) = None \<and> snd r = None \<and>
     (\<forall>x. fst r = Some x \<longrightarrow> rs_status x < 500 \<and> rs_status x \<noteq> StatusTooManyRequests)) \<Longrightarrow>
   \<not> again p meth r"
  by (auto simp: again_def retryable_def split: option.splits)

lemma parse_retry_after_seconds:
  assumes "header_get (rs_header r) ''Retry-After'' = itoa n" and "0 \<le> n" and "n \<le> max_int64"
  shows "parse_retry_after r w = (Returned (min (n * second) max_delay), w)"
proof -
  have ne: "itoa n \<noteq> ''''" using assms(2) by (simp add: itoa_def)
  have at: "atoi (itoa n) = Some n" using assms(2,3) by (simp add: atoi_itoa in_int64_def)
  show ?thesis
  proof (cases "n > max_int64 div second")
    case True
    then have "max_delay \<le> n * second" by simp
    with True assms(1,2) ne at show ?thesis
      by (simp add: parse_retry_after_def return_def)
  next
    case False
    then have "wrap64 (n * second) = n * second"
      using assms(2) by (intro wrap64_id) simp_all
    with False assms(1,2) ne at show ?thesis
      by (simp add: parse_retry_after_def return_def min_def)
  qed
qed

lemma backoff_delay_value: "\<exists>u w'. backoff_delay b n w = (Returned (next_delay (w_float w) u b n), w') \<and>
    0 \<le> u \<and> u < 1 \<and> w_float w' = w_float w \<and> w_parse_time w' = w_parse_time w"
  by (intro exI [of _ "frac (w_rand w (w_pos w))"])
    (auto simp: backoff_delay_def go_rand_def get_def bind_def frac_lt_1)

lemma retry_delay_seconds:
  assumes "header_get (rs_header r) ''Retry-After'' = itoa n" and "0 < n" and "n \<le> max_int64"
    and "rs_status r = StatusTooManyRequests \<or> rs_status r = StatusServiceUnavailable"
    and "0 < rc_MaxBackoff (rp_cfg p)"
  shows "fst (retry_delay p (Some r) k w) =
    Returned (min (min (n * second) max_delay) (rc_MaxBackoff (rp_cfg p)))"
proof -
  obtain u w' where "backoff_delay (rp_backoff p) k w = (Returned (next_delay (w_float w) u (rp_backoff p) k), w')"
    using backoff_delay_value by blast
  moreover have "0 < min (n * second) max_delay" using assms(2) by simp
  ultimately show ?thesis
    using parse_retry_after_seconds [OF assms(1) _ assms(3), of w'] assms(2,4,5)
    by (auto simp: retry_delay_def return_def min_def)
qed

lemma retry_delay_other:
  assumes "\<And>x. r = Some x \<Longrightarrow> rs_status x \<noteq> StatusTooManyRequests \<and> rs_status x \<noteq> StatusServiceUnavailable"
  shows "\<exists>u. 0 \<le> u \<and> u < 1 \<and> fst (retry_delay p r k w) = Returned (next_delay (w_float w) u (rp_backoff p) k)"
proof -
  obtain u w' where "backoff_delay (rp_backoff p) k w = (Returned (next_delay (w_float w) u (rp_backoff p) k), w')"
    "0 \<le> u" "u < 1"
    using backoff_delay_value by blast
  with assms show ?thesis
    by (intro exI [of _ u]) (cases r; simp add: retry_delay_def return_def)
qed

text \<open>
  Whatever the server's \<open>Retry-After\<close> says, the wait is at most \<open>MaxBackoff\<close> or what the backoff
  strategy gives.
\<close>

lemma parse_retry_after_total: "\<exists>d w'. parse_retry_after r w = (Returned d, w')"
  using total_progE [OF total_parse_retry_after] by metis

lemma retry_delay_bound:
  assumes "float_ok (w_float w)" and "backoff_ok (rp_backoff p)" and "0 < rc_MaxBackoff (rp_cfg p)"
    and "fst (retry_delay p r k w) = Returned d"
  shows "0 \<le> d \<and> d \<le> max (rc_MaxBackoff (rp_cfg p)) (backoff_bound (rp_backoff p))"
proof -
  obtain u w' where b: "backoff_delay (rp_backoff p) k w = (Returned (next_delay (w_float w) u (rp_backoff p) k), w')"
    and u: "0 \<le> u" "u < 1"
    using backoff_delay_value by blast
  note bounds = next_delay_bounds [OF assms(1,2) u, of k]
  have "\<exists>ra w''. retry_delay p r k w = (Returned (if ra > 0 then min ra (rc_MaxBackoff (rp_cfg p))
      else next_delay (w_float w) u (rp_backoff p) k), w'')"
  proof (cases "\<exists>x. r = Some x \<and> (rs_status x = StatusTooManyRequests \<or> rs_status x = StatusServiceUnavailable)")
    case True
    then obtain x where x: "r = Some x" "rs_status x = StatusTooManyRequests \<or> rs_status x = StatusServiceUnavailable"
      by blast
    obtain ra w'' where "parse_retry_after x w' = (Returned ra, w'')"
      using parse_retry_after_total by blast
    with b x assms(3) show ?thesis
      by (intro exI [of _ ra] exI [of _ w'']) (auto simp: retry_delay_def return_def min_def)
  next
    case False
    with b show ?thesis
      by (intro exI [of _ 0] exI [of _ w']) (cases r; auto simp: retry_delay_def return_def)
  qed
  with assms(3,4) bounds show ?thesis
    by (auto simp: max_def min_def split: if_splits)
qed

subsection \<open>The retry budget is asked about every reply\<close>

text \<open>
  \<open>shouldRetry\<close> asks the budget before it looks at the reply, so a reply that is not retried at
  all is counted, and uses up budget when the answer is yes.
\<close>

lemma should_retry_budget:
  assumes "rp_budget p = Some a" and "errors_as is_permanent (snd r) = None"
    and "budget_allow (w_float w) (w_now w + int (w_tick w (w_pos w))) (w_budgets w a) = (ok, rb)"
  shows "should_retry p (Some req) r w =
    (Returned (ok \<and> retryable (rp_cfg p) (rq_method (w_requests w req)) r),
     w\<lparr>w_now := w_now w + int (w_tick w (w_pos w)), w_pos := Suc (w_pos w),
       w_budgets := (w_budgets w)(a := rb)\<rparr>)"
  using assms
  by (simp add: should_retry_def budget_ask_def go_now_def bind_def get_def return_def Let_def)

subsection \<open>A context that is done\<close>

lemma buffer_body_clock: "w_now (snd (buffer_body cfg req w)) = w_now w"
  by (auto simp: buffer_body_def read_all_def read_limited_def close_body_def set_body_def
      new_bytes_reader_def alloc_reader_def set_request_def bind_def get_def modify_def return_def Let_def
      split: option.splits result.splits prod.splits if_splits)

lemma timer_cancelled:
  "ctx_error c w \<noteq> None \<Longrightarrow> 0 < d \<Longrightarrow> timer_or_done c d w = (Returned False, w)"
  by (simp add: timer_or_done_def return_def)

lemma retry_delay_pos:
  assumes "\<And>fe u n. 0 < next_delay fe u (rp_backoff p) n" and "0 < rc_MaxBackoff (rp_cfg p)"
    and "retry_delay p r k w = (Returned d, w')"
  shows "0 < d"
proof -
  obtain u w1 where b: "backoff_delay (rp_backoff p) k w = (Returned (next_delay (w_float w) u (rp_backoff p) k), w1)"
    using backoff_delay_value by blast
  obtain ra w2 where "\<forall>x. r = Some x \<longrightarrow> parse_retry_after x w1 = (Returned ra, w2)"
    using parse_retry_after_total [of _ w1] by (cases r) force+
  with assms b show ?thesis
    by (cases r) (auto simp: retry_delay_def return_def split: if_splits)
qed

lemma retry_ended:
  assumes wire: "wire script next" and nb: "rp_budget p = None" and nh: "OnRetry (rp_hooks p) = None"
    and bodies: "bodied script" and send: "sendable (rp_cfg p) w req"
    and ended: "ctx_done c = Some (t, e)" "t \<le> w_now w"
    and pos: "\<And>fe u n. 0 < next_delay fe u (rp_backoff p) n" "0 < rc_MaxBackoff (rp_cfg p)"
    and two: "2 \<le> attempts_of p"
    and fails: "again p (rq_method (w_requests w req)) (script (length (sent w)))"
  shows "fst (retry_execute p c req next w) = Returned (None, Some e) \<and>
    sent (snd (retry_execute p c req next w)) = sent w @ [sent_event w req]"
proof -
  let ?r = "script (length (sent w))"
  obtain body v where b: "buffer_body (rp_cfg p) req w = (Returned (Inr body), v)"
    "sent v = sent w" "body_ready body v req"
    "rq_method (w_requests v req) = rq_method (w_requests w req)"
    "attempt_event body v req = sent_event w req"
    using buffer_body_sendable [OF send] by metis
  have now: "w_now v = w_now w" using buffer_body_clock [of "rp_cfg p" req w] b(1) by simp
  have less: "0 < attempts_of p - 1" using two by linarith
  have fails': "again p (rq_method (w_requests v req)) (script (length (sent v)))"
    using fails b by simp
  obtain d w1 w2 where u: "retry_delay p (fst (script (length (sent v)))) 0 w1 = (Returned d, w2)"
    "sent w2 = sent v @ [attempt_event body v req]" "same_attempt body req v w2" "w_now v \<le> w_now w2"
    "retry_loop p c req next body (attempts_of p) 0 (None, None) v =
      bind (report (rp_metrics p) (MRetry (rq_method (w_requests w2 req)) (rq_url (w_requests w2 req)) (0 + 1))) (\<lambda>_.
      bind (timer_or_done c d) (\<lambda>fired.
      bind (close_if_some (fst (script (length (sent v))))) (\<lambda>_.
        if fired then retry_loop p c req next body (attempts_of p) (0 + 1) (script (length (sent v)))
        else bind (get (ctx_error c)) (\<lambda>e. return (None, e))))) w2"
    by (rule retry_backs_off [OF wire nb nh b(3) less fails'])
  have err: "ctx_error c x = Some e" if "w_now w2 \<le> w_now x" for x
    using ended now u(4) that by (simp add: ctx_error_def ctx_err_def)
  let ?w3 = "record_metric (rp_metrics p) (MRetry (rq_method (w_requests w2 req)) (rq_url (w_requests w2 req)) (0 + 1)) w2"
  have "0 < d" using retry_delay_pos [OF pos u(1)] .
  then have timer: "timer_or_done c d ?w3 = (Returned False, ?w3)"
    using err [of ?w3] by (simp add: timer_cancelled)
  have bod: "\<And>x. fst ?r = Some x \<Longrightarrow> rs_body x \<noteq> None" using bodies by (simp add: bodied_def)
  obtain w4 where w4: "close_if_some (fst ?r) ?w3 = (Returned (), w4)" "sent w4 = sent ?w3" "w_now w4 = w_now ?w3"
    by (rule close_if_some_ok [of "fst ?r" ?w3]) (use bod in simp_all)
  have "retry_loop p c req next body (attempts_of p) 0 (None, None) v = (Returned (None, Some e), w4)"
    unfolding u(5) report_def bind_modify
    by (subst bind_Returned, rule timer) (use b(2) w4(1,3) err [of w4] in \<open>simp add: return_def\<close>)
  then show ?thesis
    using b u(2) w4(2) by (simp add: retry_execute_def flip: attempts_of_def)
qed

subsection \<open>Examples\<close>

lemma still_world_example:
  "sendable cfg still_world 0" "rq_method (w_requests still_world 0) = MethodGet"
  "rq_url (w_requests still_world 0) = ''http://h/a''" "w_now still_world = 0"
  "sent_event still_world 0 = Sent ''GET'' ''http://h/a'' []"
  by (simp_all add: still_world_def example_request_def sendable_def sent_event_def body_bytes_def)

lemma example_retry:
  "rp_budget (NewRetry DefaultRetryConfig) = None" "rp_hooks (NewRetry DefaultRetryConfig) = no_hooks"
  "OnRetry no_hooks = None" "rc_MaxRetries (rp_cfg (NewRetry DefaultRetryConfig)) = 3"
  "attempts_of (NewRetry DefaultRetryConfig) = 4"
  "rc_ShouldRetry (rp_cfg (NewRetry DefaultRetryConfig)) = None"
  "again (NewRetry DefaultRetryConfig) MethodGet (x, None) =
     (\<exists>r. x = Some r \<and> (rs_status r = StatusTooManyRequests \<or> rs_status r \<ge> 500))"
  "again (NewRetry DefaultRetryConfig) MethodGet (x, Some DeadlineExceeded)"
  "again (NewRetry DefaultRetryConfig) MethodGet (x, Some Canceled)"
  by (auto simp: NewRetry_def applyRetryDefaults_def DefaultRetryConfig_def no_hooks_def attempts_of_def
      wrap64_id again_def retryable_def isIdempotent_def errors_as_def Let_def split: option.splits)

lemma example_retry_const:
  fixes d :: duration
  defines "p \<equiv> NewRetry (DefaultRetryConfig\<lparr>rc_Backoff := Some (ConstantBackoff d)\<rparr>)"
  shows "rp_budget p = None" "OnRetry (rp_hooks p) = None" "rp_backoff p = ConstantBackoff d"
    "rc_MaxBackoff (rp_cfg p) = 5 * second" "attempts_of p = 4"
    "again p MethodGet (x, Some DeadlineExceeded)"
  by (auto simp: p_def NewRetry_def applyRetryDefaults_def DefaultRetryConfig_def no_hooks_def attempts_of_def
      wrap64_id again_def retryable_def isIdempotent_def errors_as_def Let_def split: option.splits)

lemma example_budget:
  "rb_total (snd (budget_allow (w_float still_world) now (w_budgets still_world 0))) = 1"
  "rb_retries (snd (budget_allow (w_float still_world) now (w_budgets still_world 0))) = 1"
  by (simp_all add: still_world_def budget_allow_def NewRetryBudget_def exact_float_def fl_div_def
      fl_of_int_def Let_def)

end
