(* ===== verification/Match_Pattern.thy ===== *)
theory Match_Pattern
  imports Prelude "HOL-Library.Sublist" "HOL-Library.Multiset"
begin

section \<open>URL patterns of the timeout map: \<open>timeout.go\<close>\<close>

text \<open>
  \<open>match_pattern\<close> is \<open>matchPattern\<close> with the functions of \<open>strings\<close> it calls, \<open>match_url\<close> is
  \<open>matchURL\<close>. A Go map is iterated in an unspecified order, so the rules are an association list
  in the order of one iteration, and a statement about the code holds for every order. The
  lemmas characterise the three kinds of pattern, and say when the order matters.
\<close>

definition has_prefix :: "string \<Rightarrow> string \<Rightarrow> bool" where
  "has_prefix s p \<longleftrightarrow> take (length p) s = p"

definition has_suffix :: "string \<Rightarrow> string \<Rightarrow> bool" where
  "has_suffix s p \<longleftrightarrow> length p \<le> length s \<and> drop (length s - length p) s = p"

definition trim_prefix :: "string \<Rightarrow> string \<Rightarrow> string" where
  "trim_prefix s p = (if has_prefix s p then drop (length p) s else s)"

definition trim_suffix :: "string \<Rightarrow> string \<Rightarrow> string" where
  "trim_suffix s p = (if has_suffix s p then take (length s - length p) s else s)"

text \<open>\<open>strings.Split\<close> at a one-byte separator, and \<open>strings.Join\<close>.\<close>

fun split_at :: "char \<Rightarrow> string \<Rightarrow> string list" where
  "split_at d [] = [[]]"
| "split_at d (c # cs) =
     (if c = d then [] # split_at d cs
      else (case split_at d cs of [] \<Rightarrow> [[c]] | x # xs \<Rightarrow> (c # x) # xs))"

fun join_with :: "char \<Rightarrow> string list \<Rightarrow> string" where
  "join_with d [] = []"
| "join_with d [x] = x"
| "join_with d (x # y # ys) = x @ d # join_with d (y # ys)"

fun match_parts :: "string list \<Rightarrow> string list \<Rightarrow> bool" where
  "match_parts (pp # pps) (p # ps) = (if pp = ''*'' \<or> pp = p then match_parts pps ps else False)"
| "match_parts _ _ = True"

definition match_pattern :: "string \<Rightarrow> string \<Rightarrow> bool" where
  "match_pattern pattern path =
     (if pattern = path then True
      else if has_suffix pattern ''/*'' \<and> \<not> has_suffix pattern ''**''
      then has_prefix path (trim_suffix pattern ''*'')
      else if has_suffix pattern ''**''
      then has_prefix path (trim_suffix pattern ''**'')
      else
        (let patParts = split_at CHR ''/'' (trim_prefix pattern ''/'');
             pathParts = split_at CHR ''/'' (trim_prefix path ''/'')
         in if length patParts \<noteq> length pathParts then False else match_parts patParts pathParts))"

fun match_url :: "(string \<times> duration) list \<Rightarrow> string \<Rightarrow> duration" where
  "match_url [] path = 0"
| "match_url ((pattern, timeout) # rules) path =
     (if match_pattern pattern path then timeout else match_url rules path)"

subsection \<open>The string functions\<close>

lemma has_prefix_iff: "has_prefix s p \<longleftrightarrow> prefix p s"
  by (auto simp: has_prefix_def prefix_def) (metis append_take_drop_id)

lemma has_suffix_iff: "has_suffix s p \<longleftrightarrow> suffix p s"
proof
  assume "has_suffix s p"
  then have "s = take (length s - length p) s @ p"
    by (metis append_take_drop_id has_suffix_def)
  then show "suffix p s" by (metis suffixI)
qed (auto simp: has_suffix_def suffix_def)

lemma has_suffix_append [simp]: "has_suffix (s @ p) p"
  by (simp add: has_suffix_def)

lemma trim_suffix_append [simp]: "trim_suffix (s @ p) p = s"
  by (simp add: trim_suffix_def)

lemma split_at_not_Nil [simp]: "split_at d s \<noteq> []"
  by (cases s) (auto split: list.splits)

lemma join_split: "join_with d (split_at d s) = s"
proof (induction s)
  case (Cons c cs)
  obtain x xs where s: "split_at d cs = x # xs"
    using split_at_not_Nil by (metis list.exhaust)
  with Cons show ?case by (cases xs) auto
qed simp

lemma split_at_inject: "split_at d s = split_at d t \<longleftrightarrow> s = t"
  by (metis join_split)

lemma split_at_parts: "x \<in> set (split_at d s) \<Longrightarrow> d \<notin> set x"
proof (induction s arbitrary: x)
  case (Cons c cs)
  then show ?case by (auto split: if_splits list.splits)
qed simp

lemma split_at_chars: "x \<in> set (split_at d s) \<Longrightarrow> set x \<subseteq> set s"
proof (induction s arbitrary: x)
  case (Cons c cs)
  then show ?case
    by (fastforce split: if_splits list.splits)
qed simp

lemma match_parts_iff:
  "length ps = length qs \<Longrightarrow> match_parts ps qs \<longleftrightarrow> list_all2 (\<lambda>p q. p = ''*'' \<or> p = q) ps qs"
  by (induction ps qs rule: match_parts.induct) auto

subsection \<open>The three kinds of pattern\<close>

lemma match_double_star: "match_pattern (p @ ''**'') path \<longleftrightarrow> prefix p path"
proof -
  have a: "suffix ''/*'' (p @ ''**'') \<longleftrightarrow> False" by (simp add: suffix_def)
  have b: "suffix ''**'' (p @ ''**'')" by (simp add: suffix_def)
  show ?thesis
    by (auto simp: match_pattern_def has_suffix_iff a b has_prefix_iff)
qed

lemma match_single_star: "match_pattern (p @ ''/*'') path \<longleftrightarrow> prefix (p @ ''/'') path"
proof -
  have a: "suffix ''/*'' (p @ ''/*'')" by (simp add: suffix_def)
  have b: "\<not> suffix ''**'' (p @ ''/*'')" by (simp add: suffix_def)
  have c: "trim_suffix (p @ ''/*'') ''*'' = p @ ''/''"
    using trim_suffix_append [of "p @ ''/''" "''*''"] by simp
  show ?thesis
    by (auto simp: match_pattern_def has_suffix_iff a b c has_prefix_iff)
qed

lemma match_segments:
  assumes "\<not> suffix ''/*'' pattern" and "\<not> suffix ''**'' pattern"
  shows "match_pattern pattern path \<longleftrightarrow>
     list_all2 (\<lambda>p q. p = ''*'' \<or> p = q)
       (split_at CHR ''/'' (trim_prefix pattern ''/'')) (split_at CHR ''/'' (trim_prefix path ''/''))"
proof -
  have refl: "list_all2 (\<lambda>p q. p = ''*'' \<or> p = q) xs xs" for xs
    by (simp add: list_all2_refl)
  show ?thesis
    using assms refl
    by (auto simp: match_pattern_def has_suffix_iff Let_def match_parts_iff dest: list_all2_lengthD)
qed

text \<open>A pattern without a star matches the one path it spells, up to a leading slash.\<close>

lemma match_literal:
  assumes "CHR ''*'' \<notin> set pattern"
  shows "match_pattern pattern path \<longleftrightarrow> trim_prefix pattern ''/'' = trim_prefix path ''/''"
proof -
  have "\<not> suffix ''/*'' pattern" "\<not> suffix ''**'' pattern"
    using assms by (auto simp: suffix_def)
  note seg = match_segments [OF this, of path]
  let ?ps = "split_at CHR ''/'' (trim_prefix pattern ''/'')"
  have "set (trim_prefix pattern ''/'') \<subseteq> set pattern"
    using set_drop_subset by (auto simp: trim_prefix_def dest: in_set_dropD)
  then have "p \<noteq> ''*''" if "p \<in> set ?ps" for p
    using split_at_chars [OF that] assms by auto
  then have "list_all2 (\<lambda>p q. p = ''*'' \<or> p = q) ?ps qs \<longleftrightarrow> ?ps = qs" for qs
    by (auto simp: list_all2_conv_all_nth intro: nth_equalityI list_all2_refl)
  with seg show ?thesis by (simp add: split_at_inject)
qed

subsection \<open>The order of the rules\<close>

lemma match_url_mem:
  "match_url rules path \<noteq> 0 \<Longrightarrow>
   \<exists>pattern. (pattern, match_url rules path) \<in> set rules \<and> match_pattern pattern path"
  by (induction rules path rule: match_url.induct) auto

lemma match_url_cases:
  "(\<exists>pattern. (pattern, match_url rules path) \<in> set rules \<and> match_pattern pattern path) \<or>
   (match_url rules path = 0 \<and> (\<forall>(pattern, t) \<in> set rules. \<not> match_pattern pattern path))"
  by (induction rules path rule: match_url.induct) auto

lemma match_url_order:
  assumes "mset rules = mset rules'"
    and "\<And>p t q u. (p, t) \<in> set rules \<Longrightarrow> (q, u) \<in> set rules \<Longrightarrow>
           match_pattern p path \<Longrightarrow> match_pattern q path \<Longrightarrow> t = u"
  shows "match_url rules path = match_url rules' path"
proof -
  have same: "set rules = set rules'" using assms(1) by (rule mset_eq_setD)
  show ?thesis
    using match_url_cases [of rules path] match_url_cases [of rules' path] assms(2) same
    by fastforce
qed

end
