(* ===== verification/Timeouts.thy ===== *)
theory Timeouts
  imports World Match_Pattern
begin

section \<open>The timeout policies: \<open>timeout.go\<close>, \<open>adaptive.go\<close>\<close>

text \<open>
  \<open>TimeoutPolicy.Execute\<close>, \<open>TimeoutMapPolicy.Execute\<close> and \<open>AdaptiveTimeoutPolicy.Execute\<close>. The
  first two are the same code once the timeout is known, which is \<open>timed_execute\<close>. Each runs the
  next policy in a child context with the timeout and calls the child's cancel function when it
  returns or panics (\<open>deferred\<close>).

  The lemmas say exactly which errors become \<open>ErrTimeout\<close>, that replies without an error pass
  unchanged, and what the deferred cancel does to a response body bound to the child context.
\<close>

record timeout_policy =
  tp_metrics :: recorder
  tp_timeout :: duration

definition NewTimeout :: "duration \<Rightarrow> timeout_policy" where
  "NewTimeout d = \<lparr>tp_metrics = NilRecorder, tp_timeout = d\<rparr>"

record timeout_map_policy =
  tm_rules :: "(string \<times> duration) list"    \<comment> \<open>the map, with distinct keys\<close>
  tm_metrics :: recorder

definition NewTimeoutMap :: "(string \<times> duration) list \<Rightarrow> timeout_map_policy" where
  "NewTimeoutMap rules = \<lparr>tm_rules = rules, tm_metrics = NilRecorder\<rparr>"

text \<open>The test that the error is due to the child's own deadline.\<close>

definition own_deadline :: "ctx \<Rightarrow> ctx \<Rightarrow> world \<Rightarrow> bool" where
  "own_deadline child parent w \<longleftrightarrow>
     errors_is (ctx_error child w) DeadlineExceeded \<and> ctx_error parent w = None"

definition timed_reply :: "recorder \<Rightarrow> ctx \<Rightarrow> ctx \<Rightarrow> nat \<Rightarrow> reply \<Rightarrow> reply prog" where
  "timed_reply metrics child parent req r =
     (case snd r of
        None \<Rightarrow> return (fst r, None)
      | Some e \<Rightarrow>
          bind (get (own_deadline child parent)) (\<lambda>mine.
            if mine
            then bind (get (\<lambda>w. w_requests w req)) (\<lambda>rq.
                 bind (report metrics (MTimeout (rq_method rq) (rq_url rq))) (\<lambda>_.
                 return (fst r, Some (errorf_wv ErrTimeout (error_text e)))))
            else return r))"

definition timed_execute ::
  "recorder \<Rightarrow> duration \<Rightarrow> ctx \<Rightarrow> nat \<Rightarrow> policy_func \<Rightarrow> reply prog" where
  "timed_execute metrics timeout c req next =
     (if timeout \<le> 0 then next c req
      else
        bind (new_timeout c timeout) (\<lambda>(child, i).
        deferred (cancel i)
          (bind (with_context req child) (\<lambda>req.
           bind (next child req) (timed_reply metrics child c req)))))"

definition timeout_execute :: "timeout_policy \<Rightarrow> ctx \<Rightarrow> nat \<Rightarrow> policy_func \<Rightarrow> reply prog" where
  "timeout_execute t c req next = timed_execute (tp_metrics t) (tp_timeout t) c req next"

text \<open>\<open>matchURL\<close> iterates the map in an order of the environment's choice.\<close>

definition match_rules :: "(string \<times> duration) list \<Rightarrow> string \<Rightarrow> duration prog" where
  "match_rules rules path =
     bind (map_order (map fst rules)) (\<lambda>ks.
     return (match_url (map (\<lambda>k. (k, the (map_of rules k))) ks) path))"

definition timeout_map_execute :: "timeout_map_policy \<Rightarrow> ctx \<Rightarrow> nat \<Rightarrow> policy_func \<Rightarrow> reply prog" where
  "timeout_map_execute t c req next =
     bind (get (\<lambda>w. rq_path (w_requests w req))) (\<lambda>path.
     bind (match_rules (tm_rules t) path) (\<lambda>timeout.
     timed_execute (tm_metrics t) timeout c req next))"

record adaptive_policy =
  ap_addr :: nat
  ap_metrics :: recorder

definition adaptive_reply :: "adaptive_policy \<Rightarrow> ctx \<Rightarrow> ctx \<Rightarrow> nat \<Rightarrow> instant \<Rightarrow> reply \<Rightarrow> reply prog" where
  "adaptive_reply p child parent req start r =
     bind go_now (\<lambda>now.
     bind (modify (\<lambda>w. w\<lparr>w_adaptives := (w_adaptives w)(ap_addr p :=
         record_sample (w_float w) (now - start) (w_adaptives w (ap_addr p)))\<rparr>)) (\<lambda>_.
     case snd r of
       None \<Rightarrow> return (fst r, None)
     | Some e \<Rightarrow>
         bind (get (\<lambda>w. ctx_error child w = Some DeadlineExceeded \<and> ctx_error parent w = None)) (\<lambda>mine.
           if mine
           then bind (get (\<lambda>w. w_requests w req)) (\<lambda>rq.
                bind (report (ap_metrics p) (MTimeout (rq_method rq) (rq_url rq))) (\<lambda>_.
                return (fst r, Some ErrTimeout)))
           else return r)))"

definition adaptive_execute :: "adaptive_policy \<Rightarrow> ctx \<Rightarrow> nat \<Rightarrow> policy_func \<Rightarrow> reply prog" where
  "adaptive_execute p c req next =
     bind (get (\<lambda>w. adaptive_timeout (w_adaptives w (ap_addr p)))) (\<lambda>timeout.
     bind (new_timeout c timeout) (\<lambda>(child, i).
     deferred (cancel i)
       (bind (with_context req child) (\<lambda>req.
        bind go_now (\<lambda>start.
        bind (next child req) (adaptive_reply p child c req start))))))"

subsection \<open>The child context\<close>

lemma errors_is_deadline:
  "errors_is (Some e) DeadlineExceeded \<longleftrightarrow> DeadlineExceeded \<in> set (error_tree e)"
  by (simp add: errors_is_def)

text \<open>The world in which the next policy runs, and the request it gets.\<close>

definition enter_timeout :: "ctx \<Rightarrow> duration \<Rightarrow> nat \<Rightarrow> world \<Rightarrow> ctx \<times> nat \<times> world" where
  "enter_timeout c d req w =
     (let child = with_timeout (w_next w) (w_now w) d c; r = Suc (w_next w)
      in (child, r, w\<lparr>w_next := Suc r,
            w_requests := (w_requests w)(r := (w_requests w req)\<lparr>rq_ctx := child\<rparr>)\<rparr>))"

lemma timed_execute_unfold:
  assumes "0 < timeout" and "enter_timeout c timeout req w = (child, r, w1)"
  shows "timed_execute metrics timeout c req next w =
    deferred (cancel (w_next w)) (bind (next child r) (timed_reply metrics child c r)) w1"
  using assms
  by (auto simp: timed_execute_def enter_timeout_def new_timeout_eval with_context_eval deferred_def Let_def)

lemma adaptive_execute_unfold:
  assumes "enter_timeout c (adaptive_timeout (w_adaptives w (ap_addr p))) req w = (child, r, w1)"
  shows "adaptive_execute p c req next w =
    deferred (cancel (w_next w)) (bind go_now (\<lambda>start.
      bind (next child r) (adaptive_reply p child c r start))) w1"
  using assms
  by (auto simp: adaptive_execute_def enter_timeout_def new_timeout_eval with_context_eval deferred_def Let_def)

subsection \<open>What comes back\<close>

lemma timed_execute_returned:
  assumes "0 < timeout" and "enter_timeout c timeout req w = (child, r, w1)"
    and "next child r w1 = (Returned rep, w2)"
  shows "fst (timed_execute metrics timeout c req next w) = Returned
    (case snd rep of
       None \<Rightarrow> rep
     | Some e \<Rightarrow> if own_deadline child c w2 then (fst rep, Some (errorf_wv ErrTimeout (error_text e))) else rep)"
  by (cases rep; cases "snd rep")
    (simp_all add: timed_execute_unfold [OF assms(1,2)] deferred_def bind_def assms(3) timed_reply_def
      return_def get_def report_def modify_def)

lemma timed_execute_panicked:
  assumes "0 < timeout" and "enter_timeout c timeout req w = (child, r, w1)"
    and "next child r w1 = (Panicked v, w2)"
  shows "timed_execute metrics timeout c req next w = (Panicked v, cancel (w_next w) w2)"
  by (simp add: timed_execute_unfold [OF assms(1,2)] deferred_def bind_def assms(3))

lemma with_timeout_ids: "ctx_ids (with_timeout i t d c) = i # ctx_ids c"
  by (simp add: with_timeout_def)

text \<open>
  When the parent is not done, the child's deadline is the reason exactly when the timeout has
  passed; a child that was cancelled early is not.
\<close>

lemma own_deadline_iff:
  assumes "ctx_error c w = None" and "i \<notin> w_cancelled w"
  shows "own_deadline (with_timeout i t d c) c w \<longleftrightarrow> t + d \<le> w_now w"
proof -
  have "ctx_err c (w_now w) = None" "\<not> (\<exists>j \<in> set (ctx_ids c). j \<in> w_cancelled w)"
    using assms(1) by (auto simp: ctx_error_def split: option.splits if_splits)
  then show ?thesis
    using assms
    by (auto simp: own_deadline_def ctx_error_def ctx_err_def with_timeout_def errors_is_def
        split: option.splits if_splits)
qed

lemma own_deadline_parent: "ctx_error c w \<noteq> None \<Longrightarrow> \<not> own_deadline child c w"
  by (simp add: own_deadline_def)

subsection \<open>The deferred cancel\<close>

text \<open>Once the policy has returned, its child context is done.\<close>

lemma timed_execute_cancels:
  assumes "0 < timeout" and "enter_timeout c timeout req w = (child, r, w1)"
    and "timed_execute metrics timeout c req next w = (res, w')" and "res \<noteq> Blocked"
  shows "ctx_error child w' \<noteq> None"
proof -
  have "w_next w \<in> set (ctx_ids child)"
    using assms(2) by (auto simp: enter_timeout_def Let_def with_timeout_ids)
  moreover have "w_next w \<in> w_cancelled w'"
    using assms(3,4) timed_execute_unfold [OF assms(1,2), of metrics "next"]
    by (auto simp: deferred_def cancel_def split: result.splits prod.splits)
  ultimately show ?thesis by (rule ctx_error_cancelled)
qed

lemma read_all_ctx_done:
  "rd_ctx (w_readers w i) = Some c \<Longrightarrow> ctx_error c w \<noteq> None \<Longrightarrow>
   \<exists>e. read_all i w = (Returned ([], Some e), w)"
  by (auto simp: read_all_def Let_def)

lemma timed_reply_readers: "w_readers (snd (timed_reply m child c r rep w)) = w_readers w"
  by (auto simp: timed_reply_def return_def get_def bind_def report_def modify_def split: option.splits)

lemma timed_execute_body:
  assumes pos: "0 < timeout" and enter: "enter_timeout c timeout req w = (child, r, w1)"
    and run: "next child r w1 = (Returned (Some resp, None), w2)"
    and body: "rs_body resp = Some i" "rd_ctx (w_readers w2 i) = Some child"
    and fin: "timed_execute metrics timeout c req next w = (res, w')"
  shows "res = Returned (Some resp, None) \<and> (\<exists>e. read_all i w' = (Returned ([], Some e), w'))"
proof -
  have res: "res = Returned (Some resp, None)"
    using timed_execute_returned [of timeout c req w child r w1 "next" "(Some resp, None)" w2 metrics] pos enter run fin
    by simp
  have "w' = cancel (w_next w) w2"
    using fin run by (simp add: timed_execute_unfold [OF pos enter] deferred_def bind_def timed_reply_def return_def)
  then have "rd_ctx (w_readers w' i) = Some child" using body(2) by (simp add: cancel_def)
  moreover have "ctx_error child w' \<noteq> None"
    using timed_execute_cancels [OF pos enter fin] res by simp
  ultimately show ?thesis using read_all_ctx_done res by blast
qed

subsection \<open>The rules of the timeout map\<close>

text \<open>What Go promises of iterating a map: every key once, in some order.\<close>

definition orders_ok :: "world \<Rightarrow> bool" where
  "orders_ok w \<longleftrightarrow> (\<forall>n ks. mset (w_order w n ks) = mset ks)"

lemma match_rules_value:
  assumes "orders_ok w" and "distinct (map fst rules)"
  shows "\<exists>rules' w'. mset rules' = mset rules \<and> match_rules rules path w = (Returned (match_url rules' path), w')"
proof -
  let ?ks = "w_order w (w_pos w) (map fst rules)"
  let ?rs = "map (\<lambda>k. (k, the (map_of rules k))) ?ks"
  have "mset ?ks = mset (map fst rules)" using assms(1) by (simp add: orders_ok_def)
  then have "mset ?rs = mset (map (\<lambda>k. (k, the (map_of rules k))) (map fst rules))"
    by (metis mset_map)
  also have "map (\<lambda>k. (k, the (map_of rules k))) (map fst rules) = rules"
    unfolding map_map by (rule map_idI) (use assms(2) in \<open>auto simp: map_of_eq_Some_iff\<close>)
  finally show ?thesis
    by (intro exI [of _ ?rs]) (simp add: match_rules_def map_order_def bind_def return_def)
qed

subsection \<open>The adaptive timeout records every call\<close>

lemma adaptive_execute_records:
  assumes enter: "enter_timeout c (adaptive_timeout (w_adaptives w (ap_addr p))) req w = (child, r, w1)"
    and start: "go_now w1 = (Returned start, w2)" and run: "next child r w2 = (Returned rep, w3)"
    and "adaptive_execute p c req next w = (res, w')"
  shows "\<exists>elapsed. w_adaptives w' = (w_adaptives w3)(ap_addr p :=
      record_sample (w_float w3) elapsed (w_adaptives w3 (ap_addr p))) \<and>
    elapsed = w_now w3 + int (w_tick w3 (w_pos w3)) - start \<and>
    (\<exists>e. res = Returned (fst rep, e) \<and> (e = snd rep \<or> (snd rep \<noteq> None \<and> e = Some ErrTimeout)))"
  using assms(4) start run
  unfolding adaptive_execute_unfold [OF enter]
  by (cases rep; cases "snd rep")
    (auto simp: deferred_def bind_def adaptive_reply_def go_now_def modify_def get_def return_def
      report_def cancel_def Let_def split: if_splits)

end
