(* ===== verification/Fallback.thy ===== *)
theory Fallback
  imports World
begin

section \<open>The fallback policy: \<open>fallback.go\<close>\<close>

text \<open>
  \<open>fallback_execute\<close> is \<open>FallbackPolicy.Execute\<close>. The handler is code of the user: an arbitrary
  function, or nil, and calling nil panics. The function literal around the handler's call
  recovers; since the panic comes before the assignment, the response stays nil.

  The lemmas say that replies without an error are passed on untouched, that a panicking handler
  never takes the caller down, and what the error is when the handler fails too.
\<close>

type_synonym fallback_handler = "nat \<Rightarrow> go_error \<Rightarrow> reply prog"

record fallback_policy =
  fp_handler :: "fallback_handler option"
  fp_hooks :: hooks
  fp_metrics :: recorder

definition NewFallback :: "fallback_handler option \<Rightarrow> fallback_policy" where
  "NewFallback h = \<lparr>fp_handler = h, fp_hooks = no_hooks, fp_metrics = NilRecorder\<rparr>"

definition fallback_panic :: "string \<Rightarrow> reply" where
  "fallback_panic v = (None, Some (ErrorString (''ambatukam: fallback panic: '' @ v)))"

definition run_handler :: "fallback_policy \<Rightarrow> nat \<Rightarrow> go_error \<Rightarrow> reply prog" where
  "run_handler p req e = recovering fallback_panic
     (case fp_handler p of None \<Rightarrow> panic nil_dereference | Some h \<Rightarrow> h req e)"

text \<open>The attempts the failed request reports, and the error when the handler fails.\<close>

definition fallback_attempts :: "go_error \<Rightarrow> int" where
  "fallback_attempts e =
     (case errors_as is_request_error (Some e) of
        Some re \<Rightarrow> if re_attempts re > 0 then re_attempts re else 1
      | None \<Rightarrow> 1)"

definition fallback_error :: "string \<Rightarrow> string \<Rightarrow> go_error \<Rightarrow> go_error \<Rightarrow> go_error" where
  "fallback_error meth url e fe =
     RequestError meth url (Some (errorf_ww ErrFallback fe)) ''fallback'' 0 (fallback_attempts e)"

definition fallback_execute :: "fallback_policy \<Rightarrow> ctx \<Rightarrow> nat \<Rightarrow> policy_func \<Rightarrow> reply prog" where
  "fallback_execute p c req next =
     bind (next c req) (\<lambda>r.
     case snd r of
       None \<Rightarrow> return (fst r, None)
     | Some e \<Rightarrow>
         bind (call_hook (\<lambda>f. f req e) (OnFallback (fp_hooks p))) (\<lambda>_.
         bind (get (\<lambda>w. w_requests w req)) (\<lambda>rq.
         bind (report (fp_metrics p) (MFallback (rq_method rq) (rq_url rq))) (\<lambda>_.
         bind (run_handler p req e) (\<lambda>(fresp, ferr).
         case ferr of
           None \<Rightarrow> return (fresp, None)
         | Some fe \<Rightarrow> get (\<lambda>w.
             (None, Some (fallback_error (rq_method (w_requests w req)) (rq_url (w_requests w req)) e fe))))))))"

lemma run_handler_no_panic: "fst (run_handler p req e w) \<noteq> Panicked v"
  by (auto simp: run_handler_def recovering_def split: prod.splits result.splits)

lemma run_handler_outcome:
  "run_handler p req e w =
    (case fp_handler p of
       None \<Rightarrow> (Returned (fallback_panic nil_dereference), w)
     | Some h \<Rightarrow> (case h req e w of
           (Panicked v, w') \<Rightarrow> (Returned (fallback_panic v), w')
         | (Returned r, w') \<Rightarrow> (Returned r, w')
         | (Blocked, w') \<Rightarrow> (Blocked, w')))"
  by (auto simp: run_handler_def recovering_def panic_def split: option.splits prod.splits result.splits)

lemma fallback_success:
  "next c req w = (Returned (resp, None), w') \<Longrightarrow>
   fallback_execute p c req next w = (Returned (resp, None), w')"
  by (simp add: fallback_execute_def return_def)

lemma fallback_next_fails:
  assumes "next c req w = (Returned (resp, Some e), w1)" and "OnFallback (fp_hooks p) = None"
  shows "fallback_execute p c req next w =
    bind (run_handler p req e) (\<lambda>(fresp, ferr).
      case ferr of
        None \<Rightarrow> return (fresp, None)
      | Some fe \<Rightarrow> get (\<lambda>w.
          (None, Some (fallback_error (rq_method (w_requests w req)) (rq_url (w_requests w req)) e fe))))
      (record_metric (fp_metrics p) (MFallback (rq_method (w_requests w1 req)) (rq_url (w_requests w1 req))) w1)"
  using assms by (simp add: fallback_execute_def call_hook_def report_def)

text \<open>
  The error the fallback was called for is not in the chain of the error it returns: only its
  number of attempts survives.
\<close>

lemma fallback_error_tree:
  "set (error_tree (fallback_error m u e fe)) =
     {fallback_error m u e fe, errorf_ww ErrFallback fe, ErrFallback} \<union> set (error_tree fe)"
  by (auto simp: fallback_error_def errorf_ww_def)

lemma fallback_attempts_pos: "0 < fallback_attempts e"
  by (auto simp: fallback_attempts_def split: option.splits)

lemma fallback_attempts_retry:
  "0 < n \<Longrightarrow> fallback_attempts (RequestError m u (Some ie) pol st n) = n"
  by (simp add: fallback_attempts_def errors_as_def)

lemma fallback_error_facts:
  "errors_is (Some (fallback_error m u e fe)) ErrFallback"
  "errors_is (Some (fallback_error m u e fe)) fe"
  "errors_as is_request_error (Some (fallback_error m u e fe)) = Some (fallback_error m u e fe)"
  "re_attempts (fallback_error m u e fe) = fallback_attempts e"
  by (simp_all add: fallback_error_def errors_as_def)

text \<open>The shape of the outcome when the next policy fails.\<close>

lemma fallback_outcome:
  assumes "next c req w = (Returned (resp, Some e), w1)" and "OnFallback (fp_hooks p) = None"
    and "\<And>h v. fp_handler p = Some h \<Longrightarrow> fst (h req e v) \<noteq> Blocked"
  obtains fresp where "fst (fallback_execute p c req next w) = Returned (fresp, None)"
  | m u fe where "fst (fallback_execute p c req next w) = Returned (None, Some (fallback_error m u e fe))"
proof -
  let ?w2 = "record_metric (fp_metrics p) (MFallback (rq_method (w_requests w1 req)) (rq_url (w_requests w1 req))) w1"
  have "fst (run_handler p req e ?w2) \<noteq> Blocked"
    using assms(3) by (auto simp: run_handler_outcome split: option.splits prod.splits result.splits)
      (metis fst_conv)
  then obtain fresp ferr w3 where h: "run_handler p req e ?w2 = (Returned (fresp, ferr), w3)"
    using run_handler_no_panic [of p req e ?w2] by (metis prod.exhaust_sel result.exhaust)
  have "fst (fallback_execute p c req next w) = Returned (case ferr of None \<Rightarrow> (fresp, None)
      | Some fe \<Rightarrow> (None, Some (fallback_error (rq_method (w_requests w3 req)) (rq_url (w_requests w3 req)) e fe)))"
    unfolding fallback_next_fails [of "next" c req w resp e w1 p, OF assms(1,2)]
    by (subst bind_Returned, rule h) (auto simp: return_def get_def split: option.splits)
  with that show ?thesis by (cases ferr) auto
qed

end
