(* ===== verification/Circuit_Exec.thy ===== *)
theory Circuit_Exec
  imports World
begin

section \<open>The circuit breaker as a policy: \<open>circuit.go\<close>\<close>

text \<open>
  \<open>circuit_execute\<close> is \<open>CircuitBreakerPolicy.Execute\<close> for one request at a time: the sections of
  theory \<open>Circuit\<close> on the breaker's fields in the world, the hook and the recorder told of every
  transition, and the next policy called in between. The hook runs while the breaker's lock is
  held, so it cannot look at the breaker; here it runs at the end of the section. The clock
  is read where the code may read it, also in the states in which it does not.

  The breaker refines \<open>cb_serve\<close> of theory \<open>Circuit\<close>: whatever the next policy does, short of
  panicking, the fields change as one served request changes them.
\<close>

record circuit_policy =
  cp_addr :: nat
  cp_cfg :: circuit_config
  cp_hooks :: hooks
  cp_metrics :: recorder
  cp_logger :: logger
  cp_name :: string

definition announce :: "circuit_policy \<Rightarrow> transition \<Rightarrow> unit prog" where
  "announce p t =
     bind (call_hook (\<lambda>f. f (cp_name p) (fst t) (snd t)) (OnStateChange (cp_hooks p))) (\<lambda>_.
     report (cp_metrics p) (MCircuitStateChange (cp_name p) (fst t) (snd t)))"

fun announce_all :: "circuit_policy \<Rightarrow> transition list \<Rightarrow> unit prog" where
  "announce_all p [] = return ()"
| "announce_all p (t # ts) = bind (announce p t) (\<lambda>_. announce_all p ts)"

definition set_circuit :: "nat \<Rightarrow> circuit \<Rightarrow> world \<Rightarrow> world" where
  "set_circuit a cb w = w\<lparr>w_circuits := (w_circuits w)(a := cb)\<rparr>"

definition circuit_allow :: "circuit_policy \<Rightarrow> (bool \<times> u64) prog" where
  "circuit_allow p =
     bind go_now (\<lambda>now1.
     bind go_now (\<lambda>now2.
     bind (get (\<lambda>w. allow_request (cp_cfg p) now1 now2 (w_circuits w (cp_addr p)))) (\<lambda>(r, ts, cb).
     bind (modify (set_circuit (cp_addr p) cb)) (\<lambda>_.
     bind (announce_all p ts) (\<lambda>_. return r)))))"

definition circuit_verdict ::
  "circuit_policy \<Rightarrow> instant \<Rightarrow> u64 \<Rightarrow> reply \<Rightarrow> circuit \<Rightarrow> transition list \<times> circuit" where
  "circuit_verdict p now gen r cb =
     (if should_trip (cp_cfg p) (fst r) (snd r) then on_failure (cp_cfg p) now gen cb
      else on_success gen cb)"

definition circuit_settle :: "circuit_policy \<Rightarrow> u64 \<Rightarrow> reply \<Rightarrow> unit prog" where
  "circuit_settle p gen r =
     bind go_now (\<lambda>now.
     bind (get (\<lambda>w. circuit_verdict p now gen r (w_circuits w (cp_addr p)))) (\<lambda>(ts, cb).
     bind (modify (set_circuit (cp_addr p) cb)) (\<lambda>_.
     announce_all p ts)))"

definition circuit_execute :: "circuit_policy \<Rightarrow> ctx \<Rightarrow> nat \<Rightarrow> policy_func \<Rightarrow> reply prog" where
  "circuit_execute p c req next =
     bind (circuit_allow p) (\<lambda>(allowed, gen).
     if \<not> allowed then return (None, Some ErrCircuitOpen)
     else bind (next c req) (\<lambda>r.
          bind (circuit_settle p gen r) (\<lambda>_. return r)))"

definition circuit_state :: "circuit_policy \<Rightarrow> world \<Rightarrow> cb_state" where
  "circuit_state p w = cb_state (w_circuits w (cp_addr p))"

subsection \<open>Without a hook, the reports go to the recorder in order\<close>

lemma announce_all_eval:
  assumes "OnStateChange (cp_hooks p) = None"
  shows "announce_all p ts w = (Returned (),
    fold (\<lambda>t. record_metric (cp_metrics p) (MCircuitStateChange (cp_name p) (fst t) (snd t))) ts w)"
proof (induction ts arbitrary: w)
  case (Cons t ts)
  then show ?case
    using assms by (simp add: announce_def call_hook_def report_def)
qed (simp add: return_def)

lemma fold_record_keeps [simp]:
  "w_circuits (fold (\<lambda>t. record_metric r (m t)) ts w) = w_circuits w"
  "w_now (fold (\<lambda>t. record_metric r (m t)) ts w) = w_now w"
  "sent (fold (\<lambda>t. record_metric r (m t)) ts w) = sent w"
  by (induction ts arbitrary: w) simp_all

lemma circuit_allow_eval:
  assumes "OnStateChange (cp_hooks p) = None"
  obtains now1 now2 ts cb w' r where "w_now w \<le> now1" and "now1 \<le> now2"
    and "allow_request (cp_cfg p) now1 now2 (w_circuits w (cp_addr p)) = (r, ts, cb)"
    and "circuit_allow p w = (Returned r, w')"
    and "w_circuits w' = (w_circuits w)(cp_addr p := cb)" and "w_now w' = now2" and "sent w' = sent w"
proof -
  obtain now1 w1 where n1: "go_now w = (Returned now1, w1)" "w_now w \<le> now1" "w_circuits w1 = w_circuits w"
    "w_now w1 = now1" "sent w1 = sent w"
    by (simp add: go_now_def Let_def sent_def)
  obtain now2 w2 where n2: "go_now w1 = (Returned now2, w2)" "now1 \<le> now2" "w_circuits w2 = w_circuits w"
    "w_now w2 = now2" "sent w2 = sent w"
    using n1 by (simp add: go_now_def Let_def sent_def)
  obtain r ts cb where al: "allow_request (cp_cfg p) now1 now2 (w_circuits w (cp_addr p)) = (r, ts, cb)"
    by (metis surj_pair)
  let ?w3 = "set_circuit (cp_addr p) cb w2"
  let ?w4 = "fold (\<lambda>t. record_metric (cp_metrics p) (MCircuitStateChange (cp_name p) (fst t) (snd t))) ts ?w3"
  have "circuit_allow p w = (Returned r, ?w4)"
    using n1(1) n2(1,3) al
    by (simp add: circuit_allow_def announce_all_eval [OF assms] return_def)
  then show ?thesis
    using n1(2) n2 al
    by (intro that [of now1 now2 r ts cb ?w4]) (simp_all add: set_circuit_def sent_def [of "w_circuits_update f v" for f v],
        simp_all flip: sent_def)
qed

lemma circuit_settle_eval:
  assumes "OnStateChange (cp_hooks p) = None"
  obtains now ts cb w' where "w_now w \<le> now"
    and "circuit_verdict p now gen r (w_circuits w (cp_addr p)) = (ts, cb)"
    and "circuit_settle p gen r w = (Returned (), w')"
    and "w_circuits w' = (w_circuits w)(cp_addr p := cb)" and "sent w' = sent w" and "w_now w' = now"
proof -
  obtain now w1 where n: "go_now w = (Returned now, w1)" "w_now w \<le> now" "w_circuits w1 = w_circuits w"
    "sent w1 = sent w" "w_now w1 = now"
    by (simp add: go_now_def Let_def sent_def)
  obtain ts cb where st: "circuit_verdict p now gen r (w_circuits w (cp_addr p)) = (ts, cb)"
    by (metis surj_pair)
  let ?w2 = "set_circuit (cp_addr p) cb w1"
  let ?w3 = "fold (\<lambda>t. record_metric (cp_metrics p) (MCircuitStateChange (cp_name p) (fst t) (snd t))) ts ?w2"
  have "circuit_settle p gen r w = (Returned (), ?w3)"
    using n(1,3) st
    by (simp add: circuit_settle_def announce_all_eval [OF assms])
  then show ?thesis
    using n st
    by (intro that [of now ts cb ?w3]) (simp_all add: set_circuit_def sent_def [of "w_circuits_update f v" for f v],
        simp_all flip: sent_def)
qed

subsection \<open>Refinement of a served request\<close>

lemma circuit_execute_serves:
  assumes nh: "OnStateChange (cp_hooks p) = None"
    and run: "\<And>v. \<exists>r v'. next c req v = (Returned r, v') \<and>
      w_circuits v' (cp_addr p) = w_circuits v (cp_addr p) \<and> w_now v \<le> w_now v'"
  obtains r w' k admitted where "circuit_execute p c req next w = (Returned r, w')"
    and "w_now w \<le> call_read k" and "call_read k \<le> call_lock k" and "call_lock k \<le> call_settle k"
    and "call_settle k = w_now w'"
    and "cb_serve (cp_cfg p) k (w_circuits w (cp_addr p)) = (admitted, w_circuits w' (cp_addr p))"
    and "call_trip k = should_trip (cp_cfg p) (fst r) (snd r)"
    and "if admitted then \<exists>v. fst (next c req v) = Returned r
      else r = (None, Some ErrCircuitOpen) \<and> sent w' = sent w"
proof -
  obtain now1 now2 ts cb w1 al where a: "w_now w \<le> now1" "now1 \<le> now2"
    "allow_request (cp_cfg p) now1 now2 (w_circuits w (cp_addr p)) = (al, ts, cb)"
    "circuit_allow p w = (Returned al, w1)"
    "w_circuits w1 = (w_circuits w)(cp_addr p := cb)" "w_now w1 = now2" "sent w1 = sent w"
    by (rule circuit_allow_eval [OF nh, of w])
  obtain allowed gen where al: "al = (allowed, gen)" by (cases al)
  show ?thesis
  proof (cases allowed)
    case False
    let ?k = "\<lparr>call_read = now1, call_lock = now2,
      call_trip = should_trip (cp_cfg p) None (Some ErrCircuitOpen), call_settle = now2\<rparr>"
    have "circuit_execute p c req next w = (Returned (None, Some ErrCircuitOpen), w1)"
      using a(4) al False by (simp add: circuit_execute_def return_def)
    moreover have "cb_serve (cp_cfg p) ?k (w_circuits w (cp_addr p)) = (False, cb)"
      using a(3) al False by (simp add: cb_serve_def)
    ultimately show ?thesis
      using a(1,2,5,6,7) by (intro that [of "(None, Some ErrCircuitOpen)" w1 ?k False]) simp_all
  next
    case True
    obtain r w2 where n: "next c req w1 = (Returned r, w2)"
      "w_circuits w2 (cp_addr p) = w_circuits w1 (cp_addr p)" "w_now w1 \<le> w_now w2"
      using run by blast
    obtain now ts' cb' w3 where s: "w_now w2 \<le> now"
      "circuit_verdict p now gen r (w_circuits w2 (cp_addr p)) = (ts', cb')"
      "circuit_settle p gen r w2 = (Returned (), w3)"
      "w_circuits w3 = (w_circuits w2)(cp_addr p := cb')" "sent w3 = sent w2" "w_now w3 = now"
      by (rule circuit_settle_eval [OF nh, of w2 gen r])
    let ?k = "\<lparr>call_read = now1, call_lock = now2, call_trip = should_trip (cp_cfg p) (fst r) (snd r), call_settle = now\<rparr>"
    have "circuit_execute p c req next w = (Returned r, w3)"
      using a(4) al True n(1) s(3) by (simp add: circuit_execute_def return_def)
    moreover have "w_circuits w2 (cp_addr p) = cb" using n(2) a(5) by simp
    then have "cb_serve (cp_cfg p) ?k (w_circuits w (cp_addr p)) = (True, cb')"
      using a(3) al True s(2) by (simp add: cb_serve_def circuit_verdict_def split: if_splits)
    moreover have "\<exists>v. fst (next c req v) = Returned r" using n(1) by (metis fst_conv)
    ultimately show ?thesis
      using a(1,2,6) n(3) s(1,4,6) by (intro that [of r w3 ?k True]) simp_all
  qed
qed

subsection \<open>Requests one after another\<close>

text \<open>
  A caller that sends its requests one by one through the breaker. Its run is one of
  \<open>cb_serve_all\<close>: the verdicts are those on the replies it got, the rejected ones included, and
  the clock readings are in order from the first request to the end of the last.
\<close>

fun circuit_execute_all :: "circuit_policy \<Rightarrow> (ctx \<times> nat) list \<Rightarrow> policy_func \<Rightarrow> reply list prog" where
  "circuit_execute_all p [] next = return []"
| "circuit_execute_all p ((c, req) # calls) next =
     bind (circuit_execute p c req next) (\<lambda>r.
     bind (circuit_execute_all p calls next) (\<lambda>rs. return (r # rs)))"

definition returns_apart :: "circuit_policy \<Rightarrow> policy_func \<Rightarrow> bool" where
  "returns_apart p next \<longleftrightarrow> (\<forall>c req v. \<exists>r v'. next c req v = (Returned r, v') \<and>
     w_circuits v' (cp_addr p) = w_circuits v (cp_addr p) \<and> w_now v \<le> w_now v')"

definition reply_trips :: "circuit_policy \<Rightarrow> reply \<Rightarrow> bool" where
  "reply_trips p r = should_trip (cp_cfg p) (fst r) (snd r)"

definition call_times :: "cb_call \<Rightarrow> instant list" where
  "call_times k = [call_read k, call_lock k, call_settle k]"

lemma circuit_execute_all_serves:
  assumes nh: "OnStateChange (cp_hooks p) = None" and ap: "returns_apart p next"
  shows "\<exists>rs w' ks. circuit_execute_all p calls next w = (Returned rs, w') \<and>
    w_circuits w' (cp_addr p) = cb_serve_all (cp_cfg p) ks (w_circuits w (cp_addr p)) \<and>
    map call_trip ks = map (reply_trips p) rs \<and> length rs = length calls \<and>
    sorted (w_now w # concat (map call_times ks) @ [w_now w'])"
proof (induction calls arbitrary: w)
  case Nil
  then show ?case by (force simp: return_def)
next
  case (Cons call calls)
  obtain c req where call: "call = (c, req)" by (cases call)
  have run: "\<exists>r v'. next c req v = (Returned r, v') \<and>
      w_circuits v' (cp_addr p) = w_circuits v (cp_addr p) \<and> w_now v \<le> w_now v'" for v
    using ap by (simp add: returns_apart_def)
  obtain r w1 k admitted where k: "circuit_execute p c req next w = (Returned r, w1)"
    "w_now w \<le> call_read k" "call_read k \<le> call_lock k" "call_lock k \<le> call_settle k"
    "call_settle k = w_now w1"
    "cb_serve (cp_cfg p) k (w_circuits w (cp_addr p)) = (admitted, w_circuits w1 (cp_addr p))"
    "call_trip k = should_trip (cp_cfg p) (fst r) (snd r)"
    by (rule circuit_execute_serves [of p "next" c req w, OF nh run])
  obtain rs w' ks where ih: "circuit_execute_all p calls next w1 = (Returned rs, w')"
    "w_circuits w' (cp_addr p) = cb_serve_all (cp_cfg p) ks (w_circuits w1 (cp_addr p))"
    "map call_trip ks = map (reply_trips p) rs" "length rs = length calls"
    "sorted (w_now w1 # concat (map call_times ks) @ [w_now w'])"
    using Cons.IH [of w1] by blast
  have "circuit_execute_all p (call # calls) next w = (Returned (r # rs), w')"
    using k(1) ih(1) call by (simp add: return_def)
  moreover have "sorted (w_now w # concat (map call_times (k # ks)) @ [w_now w'])"
    using k(2-5) ih(5) by (auto simp: call_times_def)
  ultimately show ?case
    using k(6,7) ih(2-4)
    by (intro exI [of _ "r # rs"] exI [of _ w'] exI [of _ "k # ks"]) (simp add: reply_trips_def)
qed

lemma circuit_execute_hands_on:
  assumes "OnStateChange (cp_hooks p) = None" and "returns_apart p next"
  shows "\<exists>r w' k admitted. circuit_execute p c req next w = (Returned r, w') \<and>
    cb_serve (cp_cfg p) k (w_circuits w (cp_addr p)) = (admitted, w_circuits w' (cp_addr p)) \<and>
    call_trip k = reply_trips p r \<and>
    (if admitted then \<exists>v. fst (next c req v) = Returned r
     else r = (None, Some ErrCircuitOpen) \<and> sent w' = sent w)"
proof -
  have run: "\<exists>r v'. next c req v = (Returned r, v') \<and>
      w_circuits v' (cp_addr p) = w_circuits v (cp_addr p) \<and> w_now v \<le> w_now v'" for v
    using assms(2) by (simp add: returns_apart_def)
  show ?thesis
    by (rule circuit_execute_serves [of p "next" c req w, OF assms(1) run])
      (metis (no_types, lifting) reply_trips_def)
qed

text \<open>Calls between two instants less than an open period apart lie in one window.\<close>

lemma sorted_in_window:
  "sorted (t # concat (map call_times ks) @ [u]) \<Longrightarrow> u < t + d \<Longrightarrow> \<forall>k \<in> set ks. in_window t d k"
  by (force simp: sorted_append in_window_def call_times_def)

text \<open>So a new breaker trips on the replies its callers see.\<close>

lemma circuit_execute_all_trips:
  assumes "OnStateChange (cp_hooks p) = None" and "returns_apart p next"
    and "cp_cfg p = circuit_defaults cfg" and "w_circuits w (cp_addr p) = new_circuit"
    and "circuit_execute_all p calls next w = (Returned rs, w')"
    and "w_now w' < w_now w + OpenDuration (cp_cfg p)"
  shows "circuit_state p w' = StateOpen \<longleftrightarrow>
    sublist (replicate (unat (FailureThreshold (cp_cfg p))) True) (map (reply_trips p) rs)"
proof -
  obtain ks where ks: "w_circuits w' (cp_addr p) = cb_serve_all (cp_cfg p) ks new_circuit"
    "map call_trip ks = map (reply_trips p) rs"
    "sorted (w_now w # concat (map call_times ks) @ [w_now w'])"
    using circuit_execute_all_serves [OF assms(1,2), of calls w] assms(4,5) by auto
  have "\<forall>k \<in> set ks. in_window (w_now w) (OpenDuration (circuit_defaults cfg)) k"
    using sorted_in_window [OF ks(3) assms(6)] by (simp add: assms(3))
  from serve_new_trips_iff [OF this] ks(1,2) show ?thesis
    by (simp add: circuit_state_def assms(3))
qed

text \<open>A panic of the next policy leaves the breaker as the admission left it.\<close>

lemma circuit_execute_panics:
  assumes nh: "OnStateChange (cp_hooks p) = None"
    and run: "\<And>v. fst (next c req v) = Panicked x"
    and keep: "\<And>v. w_circuits (snd (next c req v)) = w_circuits v"
  obtains now1 now2 al ts cb where
    "allow_request (cp_cfg p) now1 now2 (w_circuits w (cp_addr p)) = (al, ts, cb)"
    and "w_circuits (snd (circuit_execute p c req next w)) (cp_addr p) = cb"
    and "fst (circuit_execute p c req next w) =
      (if fst al then Panicked x else Returned (None, Some ErrCircuitOpen))"
proof -
  obtain now1 now2 ts cb w1 al where a: "w_now w \<le> now1" "now1 \<le> now2"
    "allow_request (cp_cfg p) now1 now2 (w_circuits w (cp_addr p)) = (al, ts, cb)"
    "circuit_allow p w = (Returned al, w1)"
    "w_circuits w1 = (w_circuits w)(cp_addr p := cb)" "w_now w1 = now2" "sent w1 = sent w"
    by (rule circuit_allow_eval [OF nh, of w])
  obtain allowed gen where al: "al = (allowed, gen)" by (cases al)
  obtain w2 where n: "next c req w1 = (Panicked x, w2)" "w_circuits w2 = w_circuits w1"
    using run keep by (metis prod.collapse)
  have "circuit_execute p c req next w =
      (if allowed then (Panicked x, w2) else (Returned (None, Some ErrCircuitOpen), w1))"
    using a(4) al n(1) by (simp add: circuit_execute_def return_def)
  then show ?thesis
    using a(5) al n(2) by (intro that [OF a(3)]) simp_all
qed

end
