(* ===== verification/Cache_Exec.thy ===== *)
theory Cache_Exec
  imports World
begin

section \<open>The cache as a policy: \<open>cache.go\<close>\<close>

text \<open>
  \<open>cache_execute\<close> is \<open>CachePolicy.Execute\<close> for one request at a time, with the two locked sections
  of theory \<open>Cache_Store\<close> on the table in the world. A response that is stored is the one that is
  returned, with its body replaced by the bytes that could be read; the error of that reading
  is dropped.

  The lemmas say what a hit returns, that a miss stores what it returns, and that two requests
  in a row get the same status and bytes with one request sent.
\<close>

record cache_policy =
  ch_addr :: nat
  ch_cfg :: cache_config
  ch_stats :: "nat option"

definition bump :: "(stats_recorder \<Rightarrow> stats_recorder) \<Rightarrow> nat option \<Rightarrow> unit prog" where
  "bump f s = (case s of None \<Rightarrow> return ()
     | Some a \<Rightarrow> modify (\<lambda>w. w\<lparr>w_stats := (w_stats w)(a := f (w_stats w a))\<rparr>))"

definition count_hit :: "stats_recorder \<Rightarrow> stats_recorder" where
  "count_hit s = s\<lparr>st_cacheHits := st_cacheHits s + 1\<rparr>"

definition count_miss :: "stats_recorder \<Rightarrow> stats_recorder" where
  "count_miss s = s\<lparr>st_cacheMisses := st_cacheMisses s + 1\<rparr>"

text \<open>A copy of a response with a fresh body of known bytes.\<close>

definition with_body :: "response \<Rightarrow> bytes \<Rightarrow> response prog" where
  "with_body r bs = bind (new_bytes_reader bs) (\<lambda>i.
     return (r\<lparr>rs_body := Some i, rs_content_length := int (length bs)\<rparr>))"

definition cache_miss :: "cache_policy \<Rightarrow> string \<Rightarrow> reply \<Rightarrow> reply prog" where
  "cache_miss p key r =
     (case r of
        (Some resp, None) \<Rightarrow>
          (case rs_body resp of
             None \<Rightarrow> panic nil_dereference
           | Some i \<Rightarrow>
               bind (read_all i) (\<lambda>(bs, _).
               bind (close_body i) (\<lambda>_.
               bind (with_body resp bs) (\<lambda>resp.
               bind go_now (\<lambda>now1.
               bind (get (\<lambda>w. map fst (w_caches w (ch_addr p)))) (\<lambda>keys.
               bind (map_order keys) (\<lambda>order.
               bind go_now (\<lambda>now2.
               bind (modify (\<lambda>w. w\<lparr>w_caches := (w_caches w)(ch_addr p :=
                   cache_store (ch_cfg p) now1 now2 order key resp bs (w_caches w (ch_addr p)))\<rparr>)) (\<lambda>_.
               return (Some resp, None))))))))))
      | _ \<Rightarrow> return r)"

definition cache_execute :: "cache_policy \<Rightarrow> ctx \<Rightarrow> nat \<Rightarrow> policy_func \<Rightarrow> reply prog" where
  "cache_execute p c req next =
     bind (get (\<lambda>w. w_requests w req)) (\<lambda>rq.
     if \<not> is_cacheable (ch_cfg p) (rq_method rq) then next c req
     else
       (let key = cache_key (rq_method rq) (rq_url rq) in
        bind go_now (\<lambda>now.
        bind (get (\<lambda>w. cache_lookup (ch_cfg p) now key (w_caches w (ch_addr p)))) (\<lambda>hit.
        case hit of
          Some e \<Rightarrow>
            bind (bump count_hit (ch_stats p)) (\<lambda>_.
            bind (with_body (ce_resp e) (ce_body e)) (\<lambda>r. return (Some r, None)))
        | None \<Rightarrow>
            bind (bump count_miss (ch_stats p)) (\<lambda>_.
            bind (next c req) (cache_miss p key))))))"

subsection \<open>A hit\<close>

text \<open>A response whose body is a fresh reader of these bytes.\<close>

definition fresh_response :: "world \<Rightarrow> response \<Rightarrow> bytes \<Rightarrow> response \<Rightarrow> bool" where
  "fresh_response w r bs r0 \<longleftrightarrow> (\<exists>i. rs_body r = Some i \<and> w_readers w i = bytes_reader bs) \<and>
     rs_status r = rs_status r0 \<and> rs_header r = rs_header r0 \<and> rs_content_length r = int (length bs)"

lemma with_body_eval:
  obtains r' w' where "with_body r bs w = (Returned r', w')" and "fresh_response w' r' bs r"
    and "w_caches w' = w_caches w" and "sent w' = sent w" and "w_now w' = w_now w"
    and "w_requests w' = w_requests w" and "w_order w' = w_order w"
  by (simp add: with_body_def new_bytes_reader_def alloc_reader_def bind_def return_def Let_def
      fresh_response_def sent_def)

lemma bump_eval:
  obtains w' where "bump f s w = (Returned (), w')" and "w_caches w' = w_caches w" and "sent w' = sent w"
    and "w_now w' = w_now w" and "w_requests w' = w_requests w" and "w_readers w' = w_readers w"
    and "w_order w' = w_order w" and "w_cancelled w' = w_cancelled w"
  by (cases s) (simp_all add: bump_def return_def modify_def sent_def)

lemma go_now_eval:
  obtains t w' where "go_now w = (Returned t, w')" and "w_now w \<le> t" and "w_now w' = t"
    and "w_caches w' = w_caches w" and "sent w' = sent w" and "w_requests w' = w_requests w"
    and "w_readers w' = w_readers w" and "w_order w' = w_order w" and "w_cancelled w' = w_cancelled w"
  by (simp add: go_now_def Let_def sent_def)

lemma cache_execute_hit:
  assumes "is_cacheable (ch_cfg p) (rq_method (w_requests w req))"
    and "map_of (w_caches w (ch_addr p)) (cache_key (rq_method (w_requests w req)) (rq_url (w_requests w req))) = Some e"
    and "w_now w + int (w_tick w (w_pos w)) - ce_createdAt e < TTL (ch_cfg p)"
  obtains r w' where "cache_execute p c req next w = (Returned (Some r, None), w')"
    and "fresh_response w' r (ce_body e) (ce_resp e)" and "sent w' = sent w"
    and "w_caches w' = w_caches w"
proof -
  let ?key = "cache_key (rq_method (w_requests w req)) (rq_url (w_requests w req))"
  obtain t w1 where n: "go_now w = (Returned t, w1)" "t = w_now w + int (w_tick w (w_pos w))"
    "w_caches w1 = w_caches w" "sent w1 = sent w"
    by (simp add: go_now_def Let_def sent_def)
  have hit: "cache_lookup (ch_cfg p) t ?key (w_caches w1 (ch_addr p)) = Some e"
    using assms(2,3) n by (simp add: cache_lookup_def)
  obtain w2 where b: "bump count_hit (ch_stats p) w1 = (Returned (), w2)" "w_caches w2 = w_caches w1"
    "sent w2 = sent w1"
    using bump_eval by metis
  obtain r w3 where f: "with_body (ce_resp e) (ce_body e) w2 = (Returned r, w3)"
    "fresh_response w3 r (ce_body e) (ce_resp e)" "w_caches w3 = w_caches w2" "sent w3 = sent w2"
    using with_body_eval by metis
  have "cache_execute p c req next w = (Returned (Some r, None), w3)"
    using assms(1) n(1) hit b(1) f(1) by (simp add: cache_execute_def return_def Let_def)
  with that n b f show ?thesis by simp
qed

subsection \<open>A miss\<close>

text \<open>
  What reading the body gives, errors dropped. The response is stored under the request's key with
  those bytes, at an instant no later than the return, and returned with them.
\<close>

lemma cache_miss_stores:
  assumes body: "rs_body resp = Some i" and read: "fst (read_all i w) = Returned (bs, err)"
  obtains r w' now1 now2 where "cache_miss p key (Some resp, None) w = (Returned (Some r, None), w')"
    and "fresh_response w' r bs resp" and "w_now w \<le> now1" and "now1 \<le> now2" and "now2 = w_now w'"
    and "w_caches w' (ch_addr p) = cache_store (ch_cfg p) now1 now2
      (w_order w (w_pos w + 1) (map fst (w_caches w (ch_addr p)))) key r bs (w_caches w (ch_addr p))"
    and "sent w' = sent w" and "w_requests w' = w_requests w"
proof -
  obtain w1 where w1: "read_all i w = (Returned (bs, err), w1)" "w_now w1 = w_now w" "w_pos w1 = w_pos w"
    "w_tick w1 = w_tick w" "w_order w1 = w_order w" "w_caches w1 = w_caches w" "sent w1 = sent w"
    "w_requests w1 = w_requests w"
    using read by (cases "read_all i w")
      (auto simp: read_all_def Let_def sent_def split: option.splits if_splits)
  define w2 where "w2 = w1\<lparr>w_readers := (w_readers w1)(i := close_reader (w_readers w1 i))\<rparr>"
  define r where "r = resp\<lparr>rs_body := Some (w_next w2), rs_content_length := int (length bs)\<rparr>"
  define w3 where "w3 = w2\<lparr>w_next := Suc (w_next w2), w_readers := (w_readers w2)(w_next w2 := bytes_reader bs)\<rparr>"
  define now1 where "now1 = w_now w + int (w_tick w (w_pos w))"
  define order where "order = w_order w (w_pos w + 1) (map fst (w_caches w (ch_addr p)))"
  define now2 where "now2 = now1 + int (w_tick w (w_pos w + 2))"
  define w4 where "w4 = w3\<lparr>w_now := now2, w_pos := w_pos w + 3\<rparr>"
  define w5 where "w5 = w4\<lparr>w_caches := (w_caches w4)(ch_addr p :=
      cache_store (ch_cfg p) now1 now2 order key r bs (w_caches w4 (ch_addr p)))\<rparr>"
  have wb: "with_body resp bs w2 = (Returned r, w3)"
    by (simp add: with_body_def new_bytes_reader_def alloc_reader_def return_def bind_def Let_def r_def w3_def)
  have n1: "go_now w3 = (Returned now1, w3\<lparr>w_now := now1, w_pos := Suc (w_pos w)\<rparr>)"
    using w1 by (simp add: go_now_def Let_def now1_def w3_def w2_def)
  have ord: "map_order (map fst (w_caches w (ch_addr p))) (w3\<lparr>w_now := now1, w_pos := Suc (w_pos w)\<rparr>) =
      (Returned order, w3\<lparr>w_now := now1, w_pos := w_pos w + 2\<rparr>)"
    using w1 by (simp add: map_order_def order_def w3_def w2_def)
  have n2: "go_now (w3\<lparr>w_now := now1, w_pos := w_pos w + 2\<rparr>) = (Returned now2, w4)"
    using w1 by (simp add: go_now_def Let_def now2_def w4_def w3_def w2_def)
  have caches: "w_caches w3 = w_caches w" "w_caches w4 = w_caches w"
    using w1 by (simp_all add: w4_def w3_def w2_def)
  have "cache_miss p key (Some resp, None) w = (Returned (Some r, None), w5)"
    using body w1(1) wb n1 ord n2 caches
    by (simp add: cache_miss_def close_body_def return_def w5_def flip: w2_def)
  moreover have "fresh_response w5 r bs resp"
    by (simp add: fresh_response_def r_def w5_def w4_def w3_def)
  moreover have "w_caches w5 (ch_addr p) = cache_store (ch_cfg p) now1 now2 order key r bs (w_caches w (ch_addr p))"
    using caches by (simp add: w5_def)
  moreover have "sent w5 = sent w" "w_requests w5 = w_requests w"
    using w1 by (simp_all add: sent_def w5_def w4_def w3_def w2_def)
  moreover have "w_now w \<le> now1" "now1 \<le> now2" "now2 = w_now w5"
    by (simp_all add: now1_def now2_def w5_def w4_def)
  ultimately show ?thesis unfolding order_def by (intro that [of r w5 now1 now2])
qed

lemma cache_execute_miss:
  assumes "is_cacheable (ch_cfg p) (rq_method (w_requests w req))"
    and "map_of (w_caches w (ch_addr p)) (cache_key (rq_method (w_requests w req)) (rq_url (w_requests w req))) = None"
  obtains w1 where "w_caches w1 = w_caches w" and "sent w1 = sent w" and "w_requests w1 = w_requests w"
    and "w_readers w1 = w_readers w" and "w_cancelled w1 = w_cancelled w" and "w_now w \<le> w_now w1"
    and "cache_execute p c req next w = bind (next c req)
      (cache_miss p (cache_key (rq_method (w_requests w req)) (rq_url (w_requests w req)))) w1"
proof -
  let ?key = "cache_key (rq_method (w_requests w req)) (rq_url (w_requests w req))"
  obtain t w1 where n: "go_now w = (Returned t, w1)" "w_now w \<le> t" "w_now w1 = t"
    "w_caches w1 = w_caches w" "sent w1 = sent w" "w_requests w1 = w_requests w"
    "w_readers w1 = w_readers w" "w_order w1 = w_order w" "w_cancelled w1 = w_cancelled w"
    by (rule go_now_eval [of w])
  have miss: "cache_lookup (ch_cfg p) t ?key (w_caches w1 (ch_addr p)) = None"
    using assms(2) n by (simp add: cache_lookup_def)
  obtain w2 where b: "bump count_miss (ch_stats p) w1 = (Returned (), w2)" "w_caches w2 = w_caches w1"
    "sent w2 = sent w1" "w_now w2 = w_now w1" "w_requests w2 = w_requests w1" "w_readers w2 = w_readers w1"
    "w_order w2 = w_order w1" "w_cancelled w2 = w_cancelled w1"
    by (rule bump_eval [of count_miss "ch_stats p" w1])
  have "cache_execute p c req next w = bind (next c req) (cache_miss p ?key) w2"
    using assms(1) n(1) miss b(1) by (simp add: cache_execute_def Let_def)
  with that [of w2] n b show ?thesis by simp
qed

text \<open>
  The entry that the second request finds. What was stored is found until it is too old, so a
  request and its repetition get the same status, header and bytes.
\<close>

lemma cache_store_lookup:
  "map_of (cache_store cfg now1 now2 order key resp bs m) key = Some \<lparr>ce_resp = resp, ce_body = bs, ce_createdAt = now2\<rparr>"
  by (simp add: cache_store_def AList.update_conv)

lemma cache_execute_twice:
  assumes "is_cacheable (ch_cfg p) (rq_method (w_requests w req))"
    and "map_of (w_caches w (ch_addr p)) (cache_key (rq_method (w_requests w req)) (rq_url (w_requests w req))) = None"
    and "rs_body resp = Some i"
    and run: "\<And>v. \<exists>v' err. next c req v = (Returned (Some resp, None), v') \<and> fst (read_all i v') = Returned (bs, err)"
  obtains r1 w1 where "cache_execute p c req next w = (Returned (Some r1, None), w1)"
    and "fresh_response w1 r1 bs resp"
    and "\<And>req2 c2 next2 (w2 :: world). rq_method (w_requests w2 req2) = rq_method (w_requests w req) \<Longrightarrow>
       rq_url (w_requests w2 req2) = rq_url (w_requests w req) \<Longrightarrow>
       w_caches w2 (ch_addr p) = w_caches w1 (ch_addr p) \<Longrightarrow>
       w_now w2 + int (w_tick w2 (w_pos w2)) - w_now w1 < TTL (ch_cfg p) \<Longrightarrow>
       \<exists>r2 w3. cache_execute p c2 req2 next2 w2 = (Returned (Some r2, None), w3) \<and>
          fresh_response w3 r2 bs resp \<and> sent w3 = sent w2"
proof -
  let ?key = "cache_key (rq_method (w_requests w req)) (rq_url (w_requests w req))"
  obtain v where v: "cache_execute p c req next w = bind (next c req) (cache_miss p ?key) v"
    by (rule cache_execute_miss [of p w req c "next", OF assms(1,2)])
  obtain v' err where v': "next c req v = (Returned (Some resp, None), v')" "fst (read_all i v') = Returned (bs, err)"
    using run by blast
  obtain r1 w1 now1 now2 where m: "cache_miss p ?key (Some resp, None) v' = (Returned (Some r1, None), w1)"
    "fresh_response w1 r1 bs resp" "w_now v' \<le> now1" "now1 \<le> now2" "now2 = w_now w1"
    "w_caches w1 (ch_addr p) = cache_store (ch_cfg p) now1 now2
      (w_order v' (w_pos v' + 1) (map fst (w_caches v' (ch_addr p)))) ?key r1 bs (w_caches v' (ch_addr p))"
    by (rule cache_miss_stores [OF assms(3) v'(2), of p ?key])
  have r1: "rs_status r1 = rs_status resp" "rs_header r1 = rs_header resp"
    using m(2) by (simp_all add: fresh_response_def)
  show ?thesis
  proof (rule that [of r1 w1])
    show "cache_execute p c req next w = (Returned (Some r1, None), w1)"
      using v v'(1) m(1) by simp
    fix req2 c2 next2 and w2 :: world
    assume same: "rq_method (w_requests w2 req2) = rq_method (w_requests w req)"
      "rq_url (w_requests w2 req2) = rq_url (w_requests w req)"
      "w_caches w2 (ch_addr p) = w_caches w1 (ch_addr p)"
      "w_now w2 + int (w_tick w2 (w_pos w2)) - w_now w1 < TTL (ch_cfg p)"
    have e: "map_of (w_caches w2 (ch_addr p)) (cache_key (rq_method (w_requests w2 req2)) (rq_url (w_requests w2 req2)))
        = Some \<lparr>ce_resp = r1, ce_body = bs, ce_createdAt = now2\<rparr>"
      using same m(6) by (simp add: cache_store_lookup)
    obtain r2 w3 where "cache_execute p c2 req2 next2 w2 = (Returned (Some r2, None), w3)"
      "fresh_response w3 r2 (ce_body \<lparr>ce_resp = r1, ce_body = bs, ce_createdAt = now2\<rparr>)
        (ce_resp \<lparr>ce_resp = r1, ce_body = bs, ce_createdAt = now2\<rparr>)" "sent w3 = sent w2"
      by (rule cache_execute_hit [of p w2 req2, OF _ e]) (use same assms(1) m(5) in auto)
    with r1 show "\<exists>r2 w3. cache_execute p c2 req2 next2 w2 = (Returned (Some r2, None), w3) \<and>
        fresh_response w3 r2 bs resp \<and> sent w3 = sent w2"
      by (intro exI [of _ r2] exI [of _ w3]) (simp add: fresh_response_def)
  qed (use m in simp)
qed

end
