(* ===== verification/Request_Policies.thy ===== *)
theory Request_Policies
  imports World
begin

section \<open>Policies around one request: \<open>requestid.go\<close>, \<open>interceptor.go\<close>, hooks, request log\<close>

text \<open>
  \<open>RequestIDPolicy.Execute\<close>, \<open>interceptorPolicy.Execute\<close>, \<open>hooksPolicy.Execute\<close> of \<open>client.go\<close> and
  \<open>RequestLogger.Wrap\<close> of \<open>logging.go\<close>. Generators, interceptors and hooks are the user's code. A
  log record is its level, message and attributes.
\<close>

subsection \<open>Request identifiers\<close>

record request_id_policy =
  rid_gen :: "string prog"
  rid_header :: string

definition defaultRequestIDHeader :: string where
  "defaultRequestIDHeader = ''X-Request-ID''"

text \<open>\<open>hex.EncodeToString\<close> of 12 random bytes; a byte is drawn as a float in [0, 1).\<close>

definition hex_digit :: "nat \<Rightarrow> char" where
  "hex_digit n = (if n < 10 then digit_char n else char_of (87 + n))"

definition hex_encode :: "bytes \<Rightarrow> string" where
  "hex_encode bs = concat (map (\<lambda>b. [hex_digit (unat b div 16), hex_digit (unat b mod 16)]) bs)"

definition random_byte :: "(8 word) prog" where
  "random_byte = bind go_rand (\<lambda>u. return (word_of_int \<lfloor>u * 256\<rfloor>))"

fun random_bytes :: "nat \<Rightarrow> bytes prog" where
  "random_bytes 0 = return []"
| "random_bytes (Suc n) = bind random_byte (\<lambda>b. bind (random_bytes n) (\<lambda>bs. return (b # bs)))"

definition defaultIDGenerator :: "string prog" where
  "defaultIDGenerator = bind (random_bytes 12) (\<lambda>bs. return (hex_encode bs))"

definition NewRequestIDPolicy :: request_id_policy where
  "NewRequestIDPolicy = \<lparr>rid_gen = defaultIDGenerator, rid_header = defaultRequestIDHeader\<rparr>"

definition rid_WithHeader :: "string \<Rightarrow> request_id_policy \<Rightarrow> request_id_policy" where
  "rid_WithHeader name p = (if name \<noteq> '''' then p\<lparr>rid_header := name\<rparr> else p)"

definition rid_WithGenerator :: "string prog option \<Rightarrow> request_id_policy \<Rightarrow> request_id_policy" where
  "rid_WithGenerator gen p = (case gen of Some g \<Rightarrow> p\<lparr>rid_gen := g\<rparr> | None \<Rightarrow> p)"

definition request_header :: "nat \<Rightarrow> world \<Rightarrow> header" where
  "request_header req w = w_headers w (rq_header (w_requests w req))"

definition set_header :: "nat \<Rightarrow> string \<Rightarrow> string \<Rightarrow> unit prog" where
  "set_header req k v = modify (\<lambda>w. w\<lparr>w_headers := (w_headers w)(rq_header (w_requests w req) :=
     header_set (request_header req w) k v)\<rparr>)"

definition request_id_execute :: "request_id_policy \<Rightarrow> ctx \<Rightarrow> nat \<Rightarrow> policy_func \<Rightarrow> reply prog" where
  "request_id_execute p c req next =
     bind (get (\<lambda>w. header_get (request_header req w) (rid_header p))) (\<lambda>v.
     bind (if v = '''' then bind (rid_gen p) (set_header req (rid_header p)) else return ()) (\<lambda>_.
     next c req))"

lemma hex_encode_length: "length (hex_encode bs) = 2 * length bs"
  by (induction bs) (simp_all add: hex_encode_def)

lemma hex_digit_inject: "m < 16 \<Longrightarrow> n < 16 \<Longrightarrow> hex_digit m = hex_digit n \<Longrightarrow> m = n"
proof -
  have code: "of_char (hex_digit k) = (if k < 10 then 48 + k else 87 + k)" if "k < 16" for k :: nat
    using that by (simp add: hex_digit_def)
  assume "m < 16" "n < 16" "hex_digit m = hex_digit n"
  then have "(if m < 10 then 48 + m else 87 + m) = (if n < 10 then 48 + n else (87 :: nat) + n)"
    using code by metis
  then show "m = n" using \<open>m < 16\<close> \<open>n < 16\<close> by (auto split: if_splits)
qed

lemma hex_encode_inject: "hex_encode bs = hex_encode cs \<Longrightarrow> length bs = length cs \<Longrightarrow> bs = cs"
proof (induction bs arbitrary: cs)
  case (Cons b bs)
  then obtain c cs' where cs: "cs = c # cs'" by (cases cs) auto
  have small: "unat x div 16 < 16" for x :: "8 word"
  proof -
    have "unat x < 2 ^ LENGTH(8)" by (rule unsigned_less)
    then show ?thesis by (simp add: div_less_iff_less_mult)
  qed
  from Cons.prems cs have "unat b div 16 = unat c div 16" "unat b mod 16 = unat c mod 16"
    by (auto simp: hex_encode_def intro: hex_digit_inject small)
  then have "unat b = unat c" by (metis div_mult_mod_eq)
  then have "b = c" by (simp add: word_unat_eq_iff)
  with Cons cs show ?case by (simp add: hex_encode_def)
qed simp

lemma random_bytes_total: "\<exists>bs w'. random_bytes n w = (Returned bs, w') \<and> length bs = n \<and>
   w_headers w' = w_headers w \<and> w_requests w' = w_requests w"
proof (induction n arbitrary: w)
  case (Suc n)
  obtain b w1 where b: "random_byte w = (Returned b, w1)" "w_headers w1 = w_headers w" "w_requests w1 = w_requests w"
    by (simp add: random_byte_def go_rand_def bind_def return_def)
  obtain bs w2 where "random_bytes n w1 = (Returned bs, w2)" "length bs = n"
    "w_headers w2 = w_headers w1" "w_requests w2 = w_requests w1"
    using Suc by blast
  with b show ?case by (simp add: return_def)
qed (simp add: return_def)

text \<open>The generated identifier is 24 hexadecimal digits, and tells the random bytes apart.\<close>

lemma defaultIDGenerator_eval:
  obtains bs w' where "defaultIDGenerator w = (Returned (hex_encode bs), w')" and "length bs = 12"
    and "w_headers w' = w_headers w" and "w_requests w' = w_requests w"
proof -
  obtain bs w' where "random_bytes 12 w = (Returned bs, w')" "length bs = 12"
    "w_headers w' = w_headers w" "w_requests w' = w_requests w"
    using random_bytes_total by blast
  then show ?thesis by (intro that [of bs w']) (simp_all add: defaultIDGenerator_def return_def)
qed

text \<open>
  When the next policy runs, the request has an identifier: the one it came with, or a new one in
  the header that all copies of the request share.
\<close>

lemma request_id_kept:
  "header_get (request_header req w) (rid_header p) \<noteq> '''' \<Longrightarrow>
   request_id_execute p c req next w = next c req w"
  by (simp add: request_id_execute_def return_def)

lemma request_id_new:
  assumes "header_get (request_header req w) (rid_header p) = ''''"
    and "rid_gen p w = (Returned v, w1)" and "w_requests w1 = w_requests w"
  obtains w2 where "request_id_execute p c req next w = next c req w2"
    and "header_get (request_header req w2) (rid_header p) = v"
    and "w_requests w2 = w_requests w"
    and "\<And>r. rq_header (w_requests w r) = rq_header (w_requests w req) \<Longrightarrow>
      header_get (request_header r w2) (rid_header p) = v"
  using assms
  by (simp add: request_id_execute_def set_header_def bind_def get_def modify_def request_header_def)

subsection \<open>Interceptors and hooks\<close>

type_synonym interceptor = "nat \<Rightarrow> policy_func \<Rightarrow> reply prog"

definition interceptor_execute :: "interceptor \<Rightarrow> ctx \<Rightarrow> nat \<Rightarrow> policy_func \<Rightarrow> reply prog" where
  "interceptor_execute i c req next = i req next"

definition hooks_execute :: "hooks \<Rightarrow> ctx \<Rightarrow> nat \<Rightarrow> policy_func \<Rightarrow> reply prog" where
  "hooks_execute h c req next =
     bind (case BeforeRequest h of None \<Rightarrow> return None | Some f \<Rightarrow> f req) (\<lambda>err.
     case err of
       Some e \<Rightarrow> return (None, Some e)
     | None \<Rightarrow>
         bind (next c req) (\<lambda>r.
         bind (call_hook (\<lambda>f. f req (fst r) (snd r)) (AfterResponse h)) (\<lambda>_. return r)))"

text \<open>An error of \<open>BeforeRequest\<close> is final: nothing is sent and \<open>AfterResponse\<close> is not called.\<close>

lemma hooks_execute_refuses:
  "BeforeRequest h = Some f \<Longrightarrow> f req w = (Returned (Some e), w') \<Longrightarrow>
   hooks_execute h c req next w = (Returned (None, Some e), w')"
  by (simp add: hooks_execute_def return_def)

lemma hooks_execute_after:
  assumes "BeforeRequest h = None" and "next c req w = (Returned r, w1)"
    and "AfterResponse h = Some f" and "f req (fst r) (snd r) w1 = (Returned (), w2)"
  shows "hooks_execute h c req next w = (Returned r, w2)"
  using assms by (simp add: hooks_execute_def call_hook_def return_def)

subsection \<open>The request log\<close>

datatype log_level = LevelDebug | LevelWarn

datatype log_value = LString string | LDuration duration | LInt int

record log_record =
  lr_level :: log_level
  lr_message :: string
  lr_attrs :: "(string \<times> log_value) list"

text \<open>The logger is a sink: a function of the record to the world.\<close>

record request_logger =
  lg_logger :: "log_record \<Rightarrow> world \<Rightarrow> world"
  lg_headers :: "string list"
  lg_body :: bool

definition request_attrs :: "request \<Rightarrow> (string \<times> log_value) list" where
  "request_attrs rq = [(''method'', LString (rq_method rq)), (''url'', LString (rq_url rq))]"

definition header_attrs :: "string list \<Rightarrow> header \<Rightarrow> (string \<times> log_value) list" where
  "header_attrs hs h = concat (map (\<lambda>k. let v = header_get h k
     in if v \<noteq> '''' then [(''header.'' @ k, LString v)] else []) hs)"

definition started_record :: "request_logger \<Rightarrow> nat \<Rightarrow> world \<Rightarrow> log_record" where
  "started_record l req w = \<lparr>lr_level = LevelDebug, lr_message = ''request started'',
     lr_attrs = request_attrs (w_requests w req) @ header_attrs (lg_headers l) (request_header req w)\<rparr>"

definition finished_record :: "nat \<Rightarrow> duration \<Rightarrow> reply \<Rightarrow> world \<Rightarrow> log_record" where
  "finished_record req d r w =
     (let attrs = request_attrs (w_requests w req) @ [(''duration'', LDuration d)]
            @ (case fst r of None \<Rightarrow> [] | Some x \<Rightarrow> [(''status'', LInt (rs_status x))])
      in case snd r of
           Some e \<Rightarrow> \<lparr>lr_level = LevelWarn, lr_message = ''request failed'',
             lr_attrs = attrs @ [(''error'', LString (error_text e))]\<rparr>
         | None \<Rightarrow> \<lparr>lr_level = LevelDebug, lr_message = ''request completed'', lr_attrs = attrs\<rparr>)"

definition log_wrap :: "request_logger \<Rightarrow> policy_func \<Rightarrow> policy_func" where
  "log_wrap l next c req =
     bind go_now (\<lambda>start.
     bind (modify (\<lambda>w. lg_logger l (started_record l req w) w)) (\<lambda>_.
     bind (next c req) (\<lambda>r.
     bind go_now (\<lambda>now.
     bind (modify (\<lambda>w. lg_logger l (finished_record req (now - start) r w) w)) (\<lambda>_.
     return r)))))"

text \<open>The log changes no reply: a request that ends a call ends the logged one the same way.\<close>

lemma log_wrap_transparent:
  assumes "\<And>rec w. lg_logger l rec w = w"
  obtains w1 where "w_now w \<le> w_now w1" and "fst (log_wrap l next c req w) = fst (next c req w1)"
    and "sent w1 = sent w" and "w_requests w1 = w_requests w"
proof -
  let ?w1 = "snd (go_now w)"
  have "fst (log_wrap l next c req w) = fst (next c req ?w1)"
    by (auto simp: log_wrap_def bind_def go_now_def modify_def return_def assms Let_def
        split: prod.splits result.splits)
  then show ?thesis
    by (intro that [of ?w1]) (simp_all add: go_now_def Let_def sent_def)
qed

end
