(* ===== verification/Bulkhead.thy ===== *)
theory Bulkhead
  imports Http
begin

section \<open>The bulkhead: \<open>bulkhead.go\<close>\<close>

text \<open>
  A pool of \<open>MaxConcurrent\<close> workers takes requests off one channel, or off two when priorities
  are on, and the callers of \<open>Execute\<close> wait for them. Each call of \<open>Execute\<close> has an identity: its
  own \<open>bulkheadRequest\<close> with its two channels. The state is the channels' contents, the counters,
  where every worker stands in its loop and every caller in \<open>Execute\<close>, for each identity whether
  \<open>dequeued\<close> is closed and what \<open>resultCh\<close> holds. A step is one channel operation with the
  counter updates that follow it; \<open>bh_step\<close> has a rule for every case of every \<open>select\<close>. A
  worker at the top of its loop (\<open>WTop\<close>) is not yet receiving: an unbuffered send succeeds
  only when one is blocked in its \<open>select\<close> (\<open>WSelect\<close>).
\<close>

record bulkhead_config =
  MaxConcurrent :: u32
  MaxQueue :: u32
  QueueTimeout :: duration
  Priority :: bool

definition bulkhead_defaults :: "nat \<Rightarrow> bulkhead_config \<Rightarrow> bulkhead_config" where
  "bulkhead_defaults ncpu cfg =
     (if MaxConcurrent cfg = 0
      then (let cfg = cfg\<lparr>MaxConcurrent := word_of_nat (ncpu * 2)\<rparr>
            in if MaxConcurrent cfg < 1 then cfg\<lparr>MaxConcurrent := 1\<rparr> else cfg)
      else cfg)"

definition queue_timeout :: "bulkhead_config \<Rightarrow> duration" where
  "queue_timeout cfg = (if QueueTimeout cfg = 0 then second else QueueTimeout cfg)"

text \<open>The errors \<open>Execute\<close> returns when it does not run the request.\<close>

definition bh_closed_error :: go_error where
  "bh_closed_error = errorf_wv ErrBulkheadFull ''bulkhead closed''"

definition bh_full_error :: "bulkhead_config \<Rightarrow> go_error" where
  "bh_full_error cfg = errorf_wv ErrBulkheadFull
     (''max_concurrent='' @ itoa (uint (MaxConcurrent cfg)) @ '', max_queue='' @ itoa (uint (MaxQueue cfg)))"

definition bh_timeout_error :: "bulkhead_config \<Rightarrow> go_error" where
  "bh_timeout_error cfg = errorf_wv ErrBulkheadFull
     (''max_concurrent='' @ itoa (uint (MaxConcurrent cfg)) @ '', max_queue='' @ itoa (uint (MaxQueue cfg))
      @ '', queue_timeout='' @ duration_text (queue_timeout cfg))"

text \<open>What a worker sends back for what \<open>next\<close> did: a panic becomes an error.\<close>

fun recovered :: "outcome \<Rightarrow> reply option" where
  "recovered (Returned r) = Some r"
| "recovered (Panicked v) = Some (None, Some (ErrorString (''ambatukam: bulkhead panic: '' @ v)))"
| "recovered Blocked = None"

datatype worker_pc = WTop | WSelect | WRunning nat | WStopped

datatype caller_pc =
    CStart
  | CPassed                               \<comment> \<open>past the check of \<open>closed\<close>\<close>
  | CEnqueue instant                      \<comment> \<open>blocked sending, with its deadline\<close>
  | CSent instant                         \<comment> \<open>sent, about to look at the time left\<close>
  | CQueued instant                       \<comment> \<open>waiting for \<open>dequeued\<close>\<close>
  | CResult                               \<comment> \<open>waiting for the result\<close>
  | CReturned "response option" "go_error option"

record bh_sys =
  bh_queue :: "nat list"
  bh_highQ :: "nat list"
  bh_closed :: bool
  bh_denied :: u64
  bh_inFlight :: u32
  bh_now :: instant
  bh_wpc :: "nat \<Rightarrow> worker_pc"
  bh_cpc :: "nat \<Rightarrow> caller_pc"
  bh_dequeued :: "nat \<Rightarrow> bool"
  bh_resultCh :: "nat \<Rightarrow> (response option \<times> go_error option) option"

datatype bh_label =
    BhClock duration
  | BhClose
  | BhReject nat           \<comment> \<open>closed\<close>
  | BhDeny nat             \<comment> \<open>denied, counted in \<open>denied\<close>\<close>
  | BhEnter nat
  | BhBegin nat            \<comment> \<open>reads the clock and blocks on the send\<close>
  | BhEnqueue nat bool     \<comment> \<open>on the high queue?\<close>
  | BhWait nat             \<comment> \<open>blocks until dequeued\<close>
  | BhHandoff nat nat      \<comment> \<open>worker, caller: the unbuffered send\<close>
  | BhTake nat nat bool    \<comment> \<open>worker, caller, from the high queue?\<close>
  | BhSelect nat
  | BhStop nat
  | BhFinish nat nat
  | BhProceed nat
  | BhReturn nat

definition bh_deny :: "nat \<Rightarrow> go_error \<Rightarrow> bh_sys \<Rightarrow> bh_sys" where
  "bh_deny i e s = s\<lparr>bh_denied := bh_denied s + 1, bh_cpc := (bh_cpc s)(i := CReturned None (Some e))\<rparr>"

definition bh_start :: "nat \<Rightarrow> nat \<Rightarrow> bh_sys \<Rightarrow> bh_sys" where
  "bh_start w i s = s\<lparr>bh_dequeued := (bh_dequeued s)(i := True),
     bh_inFlight := bh_inFlight s + 1, bh_wpc := (bh_wpc s)(w := WRunning i)\<rparr>"

definition bh_finish :: "nat \<Rightarrow> nat \<Rightarrow> response option \<times> go_error option \<Rightarrow> bh_sys \<Rightarrow> bh_sys" where
  "bh_finish w i r s = s\<lparr>bh_inFlight := bh_inFlight s - 1,
     bh_resultCh := (bh_resultCh s)(i := Some r), bh_wpc := (bh_wpc s)(w := WTop)\<rparr>"

text \<open>The priority mark of a context, and which queue a request goes to.\<close>

definition WithPriority :: "ctx \<Rightarrow> ctx" where
  "WithPriority c = c\<lparr>ctx_priority := True\<rparr>"

definition isPriority :: "ctx \<Rightarrow> bool" where
  "isPriority c = ctx_priority c"

definition bh_uses_high :: "bulkhead_config \<Rightarrow> ctx \<Rightarrow> bool" where
  "bh_uses_high cfg c \<longleftrightarrow> Priority cfg \<and> isPriority c"

inductive bh_step :: "bulkhead_config \<Rightarrow> (nat \<Rightarrow> ctx) \<Rightarrow> bh_sys \<Rightarrow> bh_label \<Rightarrow> bh_sys \<Rightarrow> bool"
  for cfg :: bulkhead_config and ctxs :: "nat \<Rightarrow> ctx"
where
  bh_clock: "0 \<le> d \<Longrightarrow> bh_step cfg ctxs s (BhClock d) (s\<lparr>bh_now := bh_now s + d\<rparr>)"
| bh_close: "bh_step cfg ctxs s BhClose (s\<lparr>bh_closed := True\<rparr>)"
\<comment> \<open>a caller enters\<close>
| bh_reject: "bh_cpc s i = CStart \<Longrightarrow> bh_closed s \<Longrightarrow>
    bh_step cfg ctxs s (BhReject i)
      (s\<lparr>bh_cpc := (bh_cpc s)(i := CReturned None (Some bh_closed_error))\<rparr>)"
| bh_enter: "bh_cpc s i = CStart \<Longrightarrow> \<not> bh_closed s \<Longrightarrow>
    bh_step cfg ctxs s (BhEnter i) (s\<lparr>bh_cpc := (bh_cpc s)(i := CPassed)\<rparr>)"
| bh_handoff: "bh_cpc s i = CPassed \<Longrightarrow> MaxQueue cfg = 0 \<Longrightarrow>
    w < unat (MaxConcurrent cfg) \<Longrightarrow> bh_wpc s w = WSelect \<Longrightarrow>
    bh_step cfg ctxs s (BhHandoff w i)
      ((bh_start w i s)\<lparr>bh_cpc := (bh_cpc s)(i := CResult)\<rparr>)"
| bh_fail_fast: "bh_cpc s i = CPassed \<Longrightarrow> MaxQueue cfg = 0 \<Longrightarrow>
    \<forall>w < unat (MaxConcurrent cfg). bh_wpc s w \<noteq> WSelect \<Longrightarrow>
    bh_step cfg ctxs s (BhDeny i) (bh_deny i (bh_full_error cfg) s)"
| bh_begin: "bh_cpc s i = CPassed \<Longrightarrow> MaxQueue cfg \<noteq> 0 \<Longrightarrow> 0 < queue_timeout cfg \<Longrightarrow>
    bh_step cfg ctxs s (BhBegin i)
      (s\<lparr>bh_cpc := (bh_cpc s)(i := CEnqueue (bh_now s + queue_timeout cfg))\<rparr>)"
| bh_no_time: "bh_cpc s i = CPassed \<Longrightarrow> MaxQueue cfg \<noteq> 0 \<Longrightarrow> queue_timeout cfg \<le> 0 \<Longrightarrow>
    bh_step cfg ctxs s (BhDeny i) (bh_deny i (bh_timeout_error cfg) s)"
\<comment> \<open>the first \<open>select\<close>: send, timer, context\<close>
| bh_send_low: "bh_cpc s i = CEnqueue dl \<Longrightarrow> \<not> bh_uses_high cfg (ctxs i) \<Longrightarrow>
    length (bh_queue s) < unat (MaxQueue cfg) \<Longrightarrow>
    bh_step cfg ctxs s (BhEnqueue i False)
      (s\<lparr>bh_queue := bh_queue s @ [i], bh_cpc := (bh_cpc s)(i := CSent dl)\<rparr>)"
| bh_send_high: "bh_cpc s i = CEnqueue dl \<Longrightarrow> bh_uses_high cfg (ctxs i) \<Longrightarrow>
    length (bh_highQ s) < unat (MaxQueue cfg) \<Longrightarrow>
    bh_step cfg ctxs s (BhEnqueue i True)
      (s\<lparr>bh_highQ := bh_highQ s @ [i], bh_cpc := (bh_cpc s)(i := CSent dl)\<rparr>)"
| bh_send_timeout: "bh_cpc s i = CEnqueue dl \<Longrightarrow> dl \<le> bh_now s \<Longrightarrow>
    bh_step cfg ctxs s (BhDeny i) (bh_deny i (bh_timeout_error cfg) s)"
| bh_send_cancel: "bh_cpc s i = CEnqueue dl \<Longrightarrow> ctx_err (ctxs i) (bh_now s) = Some e \<Longrightarrow>
    bh_step cfg ctxs s (BhDeny i) (bh_deny i e s)"
\<comment> \<open>after the send: the time left, then the second \<open>select\<close>: dequeued, timer, context\<close>
| bh_wait: "bh_cpc s i = CSent dl \<Longrightarrow> bh_now s < dl \<Longrightarrow>
    bh_step cfg ctxs s (BhWait i) (s\<lparr>bh_cpc := (bh_cpc s)(i := CQueued dl)\<rparr>)"
| bh_late: "bh_cpc s i = CSent dl \<Longrightarrow> dl \<le> bh_now s \<Longrightarrow>
    bh_step cfg ctxs s (BhDeny i) (bh_deny i (bh_timeout_error cfg) s)"
| bh_proceed: "bh_cpc s i = CQueued dl \<Longrightarrow> bh_dequeued s i \<Longrightarrow>
    bh_step cfg ctxs s (BhProceed i) (s\<lparr>bh_cpc := (bh_cpc s)(i := CResult)\<rparr>)"
| bh_wait_timeout: "bh_cpc s i = CQueued dl \<Longrightarrow> dl \<le> bh_now s \<Longrightarrow>
    bh_step cfg ctxs s (BhDeny i) (bh_deny i (bh_timeout_error cfg) s)"
| bh_wait_cancel: "bh_cpc s i = CQueued dl \<Longrightarrow> ctx_err (ctxs i) (bh_now s) = Some e \<Longrightarrow>
    bh_step cfg ctxs s (BhDeny i) (bh_deny i e s)"
\<comment> \<open>the last \<open>select\<close>: result, context\<close>
| bh_return: "bh_cpc s i = CResult \<Longrightarrow> bh_resultCh s i = Some (resp, err) \<Longrightarrow>
    bh_step cfg ctxs s (BhReturn i)
      (s\<lparr>bh_resultCh := (bh_resultCh s)(i := None), bh_cpc := (bh_cpc s)(i := CReturned resp err)\<rparr>)"
| bh_result_cancel: "bh_cpc s i = CResult \<Longrightarrow> ctx_err (ctxs i) (bh_now s) = Some e \<Longrightarrow>
    bh_step cfg ctxs s (BhDeny i) (bh_deny i e s)"
\<comment> \<open>a worker\<close>
| bh_top_plain: "w < unat (MaxConcurrent cfg) \<Longrightarrow> bh_wpc s w = WTop \<Longrightarrow> \<not> Priority cfg \<Longrightarrow>
    bh_step cfg ctxs s (BhSelect w) (s\<lparr>bh_wpc := (bh_wpc s)(w := WSelect)\<rparr>)"
| bh_top_default: "w < unat (MaxConcurrent cfg) \<Longrightarrow> bh_wpc s w = WTop \<Longrightarrow> Priority cfg \<Longrightarrow>
    \<not> bh_closed s \<Longrightarrow> bh_highQ s = [] \<Longrightarrow>
    bh_step cfg ctxs s (BhSelect w) (s\<lparr>bh_wpc := (bh_wpc s)(w := WSelect)\<rparr>)"
| bh_top_high: "w < unat (MaxConcurrent cfg) \<Longrightarrow> bh_wpc s w = WTop \<Longrightarrow> Priority cfg \<Longrightarrow>
    bh_highQ s = i # q \<Longrightarrow>
    bh_step cfg ctxs s (BhTake w i True) (bh_start w i (s\<lparr>bh_highQ := q\<rparr>))"
| bh_stop: "w < unat (MaxConcurrent cfg) \<Longrightarrow> bh_closed s \<Longrightarrow>
    bh_wpc s w = WSelect \<or> (Priority cfg \<and> bh_wpc s w = WTop) \<Longrightarrow>
    bh_step cfg ctxs s (BhStop w) (s\<lparr>bh_wpc := (bh_wpc s)(w := WStopped)\<rparr>)"
| bh_take_high: "w < unat (MaxConcurrent cfg) \<Longrightarrow> bh_wpc s w = WSelect \<Longrightarrow> Priority cfg \<Longrightarrow>
    bh_highQ s = i # q \<Longrightarrow>
    bh_step cfg ctxs s (BhTake w i True) (bh_start w i (s\<lparr>bh_highQ := q\<rparr>))"
| bh_take_low: "w < unat (MaxConcurrent cfg) \<Longrightarrow> bh_wpc s w = WSelect \<Longrightarrow> bh_queue s = i # q \<Longrightarrow>
    bh_step cfg ctxs s (BhTake w i False) (bh_start w i (s\<lparr>bh_queue := q\<rparr>))"
| bh_done: "w < unat (MaxConcurrent cfg) \<Longrightarrow> bh_wpc s w = WRunning i \<Longrightarrow> recovered out = Some r \<Longrightarrow>
    bh_step cfg ctxs s (BhFinish w i) (bh_finish w i r s)"

inductive_cases bh_denyE: "bh_step cfg ctxs s (BhDeny i) s'"
inductive_cases bh_enterE: "bh_step cfg ctxs s (BhEnter i) s'"
inductive_cases bh_takeE: "bh_step cfg ctxs s (BhTake w i h) s'"
inductive_simps bh_reject_iff: "bh_step cfg ctxs s (BhReject i) s'"

definition bh_init :: "bh_sys \<Rightarrow> bool" where
  "bh_init s \<longleftrightarrow> bh_queue s = [] \<and> bh_highQ s = [] \<and> \<not> bh_closed s \<and> bh_denied s = 0 \<and>
     bh_inFlight s = 0 \<and> (\<forall>w. bh_wpc s w = WTop) \<and> (\<forall>i. bh_cpc s i = CStart) \<and>
     (\<forall>i. \<not> bh_dequeued s i) \<and> (\<forall>i. bh_resultCh s i = None)"

definition bh_empty :: bh_sys where
  "bh_empty = \<lparr>bh_queue = [], bh_highQ = [], bh_closed = False, bh_denied = 0, bh_inFlight = 0,
     bh_now = 0, bh_wpc = \<lambda>_. WTop, bh_cpc = \<lambda>_. CStart, bh_dequeued = \<lambda>_. False,
     bh_resultCh = \<lambda>_. None\<rparr>"

lemma bh_empty_init: "bh_init bh_empty"
  by (simp add: bh_empty_def bh_init_def)

lemmas bh_state [state_defs] = bh_deny_def bh_start_def bh_finish_def

subsection \<open>At most \<open>MaxConcurrent\<close> requests run\<close>

definition running :: "nat \<Rightarrow> (nat \<Rightarrow> worker_pc) \<Rightarrow> nat set" where
  "running n p = {w. w < n \<and> (\<exists>i. p w = WRunning i)}"

lemma running_finite [simp]: "finite (running n p)"
  by (simp add: running_def)

lemma running_le: "card (running n p) \<le> n"
  using card_mono [of "{..<n}" "running n p"] by (auto simp: running_def)

lemma running_start:
  "w < n \<Longrightarrow> \<forall>i. p w \<noteq> WRunning i \<Longrightarrow> card (running n (p(w := WRunning j))) = Suc (card (running n p))"
proof -
  assume w: "w < n" "\<forall>i. p w \<noteq> WRunning i"
  then have "running n (p(w := WRunning j)) = insert w (running n p)"
    by (auto simp: running_def)
  moreover have "w \<notin> running n p" using w by (auto simp: running_def)
  ultimately show ?thesis by simp
qed

lemma running_stop:
  "w < n \<Longrightarrow> p w = WRunning i \<Longrightarrow> \<forall>j. q \<noteq> WRunning j \<Longrightarrow>
   Suc (card (running n (p(w := q)))) = card (running n p)"
proof -
  assume w: "w < n" "p w = WRunning i" "\<forall>j. q \<noteq> WRunning j"
  then have "running n (p(w := q)) = running n p - {w}" by (auto simp: running_def)
  moreover have "w \<in> running n p" using w by (auto simp: running_def)
  ultimately show ?thesis
    by (metis card_Suc_Diff1 running_finite)
qed

lemma running_same:
  "\<forall>i. p w \<noteq> WRunning i \<Longrightarrow> \<forall>j. q \<noteq> WRunning j \<Longrightarrow> running n (p(w := q)) = running n p"
  by (auto simp: running_def)

definition bh_counts :: "bulkhead_config \<Rightarrow> bh_sys \<Rightarrow> bool" where
  "bh_counts cfg s \<longleftrightarrow>
     unat (bh_inFlight s) = card (running (unat (MaxConcurrent cfg)) (bh_wpc s)) \<and>
     length (bh_queue s) \<le> unat (MaxQueue cfg) \<and> length (bh_highQ s) \<le> unat (MaxQueue cfg)"

lemma inFlight_start:
  fixes f m :: u32
  assumes "unat f = card (running (unat m) p)" and "w < unat m" and "\<forall>i. p w \<noteq> WRunning i"
  shows "unat (f + 1) = card (running (unat m) (p(w := WRunning i)))"
proof -
  have "Suc (unat f) \<le> unat m"
    using running_start [of w "unat m" p, OF assms(2,3)] running_le [of "unat m" "p(w := WRunning i)"] assms(1) by simp
  then have "f < m" by (simp add: word_less_nat_alt)
  then show ?thesis
    using running_start [of w "unat m" p, OF assms(2,3)] assms(1) by (simp add: unat_plus_one)
qed

lemma inFlight_finish:
  fixes f m :: u32
  assumes "unat f = card (running (unat m) p)" and "w < unat m" and "p w = WRunning i"
  shows "unat (f - 1) = card (running (unat m) (p(w := WTop)))"
proof -
  have s: "Suc (card (running (unat m) (p(w := WTop)))) = unat f"
    using running_stop [of w "unat m" p, OF assms(2,3)] assms(1) by simp
  then have "0 < unat f" by linarith
  then have "0 < f" by (simp only: unat_pos_iff)
  with s show ?thesis by (simp add: unat_minus_one_pos)
qed

interpretation bh_bounds: invariant_system bh_init "bh_step cfg ctxs" "bh_counts cfg" for cfg ctxs
proof unfold_locales
  fix s assume "bh_init s"
  then show "bh_counts cfg s" by (simp add: bh_init_def bh_counts_def running_def)
next
  fix s l s'
  assume inv: "bh_counts cfg s" and "bh_step cfg ctxs s l s'"
  from this(2) show "bh_counts cfg s'"
    using inv
    by cases (auto simp: bh_counts_def state_defs running_same
        intro: inFlight_start inFlight_finish)
qed

subsection \<open>Each request is run at most once, and its result is not lost\<close>

text \<open>
  Where an identity can be: before the send, in one place of one queue, or dequeued. Once
  dequeued, it is being run, or its result is in its channel, or its caller has returned.
\<close>

fun before_send :: "caller_pc \<Rightarrow> bool" where
  "before_send CStart = True"
| "before_send CPassed = True"
| "before_send (CEnqueue dl) = True"
| "before_send p = False"

fun has_returned :: "caller_pc \<Rightarrow> bool" where
  "has_returned (CReturned r e) = True"
| "has_returned p = False"

definition bh_id_ok :: "bh_sys \<Rightarrow> nat \<Rightarrow> bool" where
  "bh_id_ok s i \<longleftrightarrow>
     (i \<in> set (bh_queue s @ bh_highQ s) \<longrightarrow> \<not> bh_dequeued s i \<and> \<not> before_send (bh_cpc s i)) \<and>
     (bh_dequeued s i \<longrightarrow> \<not> before_send (bh_cpc s i)) \<and>
     (bh_cpc s i = CResult \<longrightarrow> bh_dequeued s i)"

definition bh_ids_ok :: "bh_sys \<Rightarrow> bool" where
  "bh_ids_ok s \<longleftrightarrow> distinct (bh_queue s @ bh_highQ s) \<and> (\<forall>i. bh_id_ok s i)"

definition bh_result_ok :: "bulkhead_config \<Rightarrow> bh_sys \<Rightarrow> bool" where
  "bh_result_ok cfg s \<longleftrightarrow> (\<forall>i. bh_dequeued s i \<longrightarrow>
     (\<exists>w < unat (MaxConcurrent cfg). bh_wpc s w = WRunning i) \<or> bh_resultCh s i \<noteq> None \<or>
     has_returned (bh_cpc s i))"

lemma bh_id_ok_not_queued:
  "bh_id_ok s i \<Longrightarrow> before_send (bh_cpc s i) \<or> bh_dequeued s i \<Longrightarrow> i \<notin> set (bh_queue s @ bh_highQ s)"
  by (auto simp: bh_id_ok_def)

lemma bh_step_distinct:
  assumes "bh_step cfg ctxs s l s'" and "distinct (bh_queue s @ bh_highQ s)" and "\<forall>i. bh_id_ok s i"
  shows "distinct (bh_queue s' @ bh_highQ s')"
proof -
  have "before_send (bh_cpc s i) \<Longrightarrow> i \<notin> set (bh_queue s) \<and> i \<notin> set (bh_highQ s)" for i
    using bh_id_ok_not_queued [of s i] assms(3) by simp
  from this assms(1,2) show ?thesis
    by - (erule bh_step.cases; simp add: state_defs)
qed

lemma bh_step_id:
  assumes "bh_step cfg ctxs s l s'" and "distinct (bh_queue s @ bh_highQ s)" and "bh_id_ok s j"
  shows "bh_id_ok s' j"
  using assms
  by cases (auto simp: bh_id_ok_def state_defs)

lemma bh_step_result:
  assumes "bh_step cfg ctxs s l s'" and "bh_result_ok cfg s"
  shows "bh_result_ok cfg s'"
  using assms
  by cases (auto simp: bh_result_ok_def state_defs; metis worker_pc.distinct worker_pc.inject)+

definition bh_safe :: "bulkhead_config \<Rightarrow> bh_sys \<Rightarrow> bool" where
  "bh_safe cfg s \<longleftrightarrow> bh_ids_ok s \<and> bh_result_ok cfg s"

interpretation bh_ids: invariant_system bh_init "bh_step cfg ctxs" "bh_safe cfg" for cfg ctxs
proof unfold_locales
  fix s assume "bh_init s"
  then show "bh_safe cfg s"
    by (simp add: bh_init_def bh_safe_def bh_ids_ok_def bh_id_ok_def bh_result_ok_def)
next
  fix s l s' assume "bh_safe cfg s" and "bh_step cfg ctxs s l s'"
  then show "bh_safe cfg s'"
    by (auto simp: bh_safe_def bh_ids_ok_def simp del: distinct_append
        intro: bh_step_distinct bh_step_id bh_step_result)
qed

text \<open>The identity a step hands to a worker.\<close>

fun bh_started :: "bh_label \<Rightarrow> nat list" where
  "bh_started (BhHandoff w i) = [i]"
| "bh_started (BhTake w i h) = [i]"
| "bh_started l = []"

lemma bh_step_started:
  assumes "bh_step cfg ctxs s l s'" and "bh_ids_ok s"
  shows "(bh_dequeued s i \<longrightarrow> bh_dequeued s' i \<and> i \<notin> set (bh_started l)) \<and>
    (i \<in> set (bh_started l) \<longrightarrow> bh_dequeued s' i)"
proof -
  have "bh_id_ok s i" using assms(2) by (simp add: bh_ids_ok_def)
  with assms(1) show ?thesis
    by cases (auto simp: bh_id_ok_def state_defs)
qed

interpretation bh_once: potential_system
  "\<lambda>s l t. bh_safe cfg s \<and> bh_step cfg ctxs s l t"
  "\<lambda>s. if bh_dequeued s i then 0 else 1"
  "\<lambda>l. if i \<in> set (bh_started l) then 1 else 0" "\<lambda>l. 0" for cfg ctxs i
  by unfold_locales (use bh_step_started in \<open>force simp: bh_safe_def\<close>)

lemma bh_at_most_once:
  assumes "bh_init s" and "run (bh_step cfg ctxs) s ls s'"
  shows "length (filter (\<lambda>l. i \<in> set (bh_started l)) ls) \<le> 1"
  using bh_once.run_cost_bound [OF bh_ids.run_guarded [OF assms(2) bh_ids.init_inv [OF assms(1)]], of i]
    assms(1)
  by (simp add: sum_list_if_count bh_init_def)

subsection \<open>Each queue is first in, first out\<close>

fun bh_puts :: "bool \<Rightarrow> bh_label \<Rightarrow> nat list" where
  "bh_puts high (BhEnqueue i h) = (if h = high then [i] else [])"
| "bh_puts high l = []"

fun bh_takes :: "bool \<Rightarrow> bh_label \<Rightarrow> nat list" where
  "bh_takes high (BhTake w i h) = (if h = high then [i] else [])"
| "bh_takes high l = []"

interpretation low_fifo: fifo_system "bh_step cfg ctxs" bh_queue "bh_puts False" "bh_takes False"
  for cfg ctxs
proof unfold_locales
  fix s l t assume "bh_step cfg ctxs s l t"
  then show "bh_takes False l @ bh_queue t = bh_queue s @ bh_puts False l"
    by cases (simp_all add: state_defs)
qed

interpretation high_fifo: fifo_system "bh_step cfg ctxs" bh_highQ "bh_puts True" "bh_takes True"
  for cfg ctxs
proof unfold_locales
  fix s l t assume "bh_step cfg ctxs s l t"
  then show "bh_takes True l @ bh_highQ t = bh_highQ s @ bh_puts True l"
    by cases (simp_all add: state_defs)
qed

text \<open>
  A worker at the top of its loop passes a waiting priority request by only if there is none:
  a low request is taken over a high one only by a worker already blocked in the inner
  \<open>select\<close>.
\<close>

lemma bh_top_takes_high:
  "bh_step cfg ctxs s l s' \<Longrightarrow> Priority cfg \<Longrightarrow> bh_wpc s w = WTop \<Longrightarrow> bh_highQ s = i # q \<Longrightarrow>
   bh_wpc s' w \<in> {WTop, WRunning i, WStopped} \<and> l \<noteq> BhTake w j False"
  by (erule bh_step.cases) (auto simp: state_defs)

subsection \<open>Closing\<close>

interpretation bh_close: trap_system "bh_step cfg ctxs" bh_closed for cfg ctxs
proof unfold_locales
  fix s l t assume "bh_closed s" and "bh_step cfg ctxs s l t"
  from this(2,1) show "bh_closed t" by cases (simp_all add: state_defs)
qed

fun bh_enters :: "bh_label \<Rightarrow> nat list" where
  "bh_enters (BhEnter i) = [i]"
| "bh_enters l = []"

lemma bh_closed_run:
  "run (bh_step cfg ctxs) s ls s' \<Longrightarrow> bh_closed s \<Longrightarrow> \<forall>l \<in> set ls. bh_enters l = []"
proof (induction rule: run.induct)
  case (run_Nil s)
  then show ?case by simp
next
  case (run_Cons s l t ls u)
  from run_Cons.hyps(1) run_Cons.prems have "bh_enters l = []" by cases simp_all
  with run_Cons show ?case by (simp add: bh_close.step_trap [OF run_Cons.prems run_Cons.hyps(1)])
qed

subsection \<open>A waiting caller is never stuck\<close>

lemma bh_deadline_step:
  assumes "bh_cpc s i \<in> {CEnqueue dl, CSent dl, CQueued dl}" and "dl \<le> bh_now s"
  shows "bh_step cfg ctxs s (BhDeny i) (bh_deny i (bh_timeout_error cfg) s)"
  using assms by (auto intro: bh_send_timeout bh_late bh_wait_timeout)

lemma bh_waiting_returns:
  assumes "bh_cpc s i \<in> {CEnqueue dl, CSent dl, CQueued dl}"
  shows "\<exists>s'. run (bh_step cfg ctxs) s [BhClock (max 0 (dl - bh_now s)), BhDeny i] s' \<and>
    bh_cpc s' i = CReturned None (Some (bh_timeout_error cfg))"
proof -
  let ?t = "s\<lparr>bh_now := bh_now s + max 0 (dl - bh_now s)\<rparr>"
  have "bh_step cfg ctxs s (BhClock (max 0 (dl - bh_now s))) ?t" by (rule bh_clock) simp
  moreover have "bh_step cfg ctxs ?t (BhDeny i) (bh_deny i (bh_timeout_error cfg) ?t)"
    using assms by (intro bh_deadline_step) auto
  ultimately show ?thesis
    by (intro exI [of _ "bh_deny i (bh_timeout_error cfg) ?t"])
      (auto simp: run_Cons_iff bh_deny_def)
qed

text \<open>
  Denying a queued request does not take it out of its queue: the caller has its error, and a
  worker runs the request all the same. Nobody receives that result.
\<close>

lemma bh_deny_keeps_queue:
  "bh_step cfg ctxs s (BhDeny i) s' \<Longrightarrow> bh_queue s' = bh_queue s \<and> bh_highQ s' = bh_highQ s \<and>
   bh_wpc s' = bh_wpc s \<and> bh_denied s' = bh_denied s + 1 \<and> has_returned (bh_cpc s' i)"
  by (erule bh_denyE) (simp_all add: bh_deny_def)

lemma bh_denied_still_runs:
  assumes "bh_cpc s i = CQueued dl" and "dl \<le> bh_now s" and "bh_queue s = i # q"
    and "w < unat (MaxConcurrent cfg)" and "bh_wpc s w = WSelect"
  shows "\<exists>s'. run (bh_step cfg ctxs) s [BhDeny i, BhTake w i False] s' \<and>
    bh_cpc s' i = CReturned None (Some (bh_timeout_error cfg)) \<and> bh_wpc s' w = WRunning i"
proof -
  let ?t = "bh_deny i (bh_timeout_error cfg) s"
  let ?u = "bh_start w i (?t\<lparr>bh_queue := q\<rparr>)"
  have "bh_step cfg ctxs s (BhDeny i) ?t" using assms(1,2) by (rule bh_wait_timeout)
  moreover have "bh_step cfg ctxs ?t (BhTake w i False) ?u"
    by (rule bh_take_low) (use assms in \<open>simp_all add: bh_deny_def\<close>)
  ultimately show ?thesis
    by (intro exI [of _ ?u]) (auto simp: run_Cons_iff state_defs)
qed

subsection \<open>An example run\<close>

text \<open>One worker, one place in the queue: a caller whose request is queued, taken and answered.\<close>

definition bh_one :: bulkhead_config where
  "bh_one = \<lparr>MaxConcurrent = 1, MaxQueue = 1, QueueTimeout = 0, Priority = False\<rparr>"

abbreviation bh_one_labels :: "bh_label list" where
  "bh_one_labels \<equiv> [BhSelect 0, BhEnter 3, BhBegin 3, BhEnqueue 3 False, BhWait 3, BhTake 0 3 False, BhProceed 3]"

lemmas bh_one_eval = bh_empty_def bh_one_def bh_uses_high_def isPriority_def ctx_background_def queue_timeout_def

lemma bh_one_run:
  "\<exists>s'. run (bh_step bh_one (\<lambda>_. ctx_background)) bh_empty bh_one_labels s' \<and>
     bh_wpc s' 0 = WRunning 3 \<and> bh_cpc s' 3 = CResult \<and> bh_inFlight s' = 1 \<and> bh_queue s' = []"
  apply (intro exI, rule conjI)
   apply (rule run_Cons, rule bh_top_plain [where w = 0], (simp add: bh_one_eval)+)
   apply (rule run_Cons, rule bh_enter, (simp add: bh_one_eval)+)
   apply (rule run_Cons, rule bh_begin, (simp add: bh_one_eval)+)
   apply (rule run_Cons, rule bh_send_low, (simp add: bh_one_eval)+)
   apply (rule run_Cons, rule bh_wait, (simp add: bh_one_eval)+)
   apply (rule run_Cons, rule bh_take_low, (simp add: bh_one_eval)+)
   apply (rule run_Cons, rule bh_proceed, (simp add: bh_one_eval state_defs)+)
  done

end
