(* ===== verification/Rate_Limit.thy ===== *)
theory Rate_Limit
  imports Floats Http
begin

section \<open>The rate limiter: \<open>ratelimit.go\<close>\<close>

text \<open>
  The buffered channel \<open>tokens\<close> holds empty values, so its state is their number. The refill
  goroutine and the callers of \<open>Execute\<close> are a transition system: a caller is outside, at the
  head of the loop of \<open>Execute\<close>, blocked in its second \<open>select\<close>, or past it and running
  \<open>next\<close>. A refill step happens no earlier than the ticker's schedule, which drops ticks
  but never brings one forward. The two configurations without a bucket (\<open>Rate == 0\<close> and
  \<open>Rate < 0\<close>) decide at once, in \<open>rl_gate\<close>.
\<close>

record rate_config =
  Rate :: rat
  WaitTimeout :: duration
  Burst :: u32

record limiter =
  rl_tokens :: nat
  rl_cap :: nat
  rl_closed :: bool       \<comment> \<open>the channel \<open>stop\<close> is closed\<close>
  rl_refilling :: bool    \<comment> \<open>\<open>refillLoop\<close> has not returned\<close>
  rl_nextTick :: instant

text \<open>What \<open>NewRateLimit\<close> makes of the configuration.\<close>

definition rate_defaults :: "rate_config \<Rightarrow> rate_config" where
  "rate_defaults cfg =
     (let cfg = (if Burst cfg = 0 then cfg\<lparr>Burst := 1\<rparr> else cfg);
          cfg = (if WaitTimeout cfg < 0 then cfg\<lparr>WaitTimeout := 0\<rparr> else cfg)
      in cfg)"

datatype rate_gate = PassThrough | DenyAll | Bucket

definition rl_gate :: "rate_config \<Rightarrow> rate_gate" where
  "rl_gate cfg = (if Rate cfg = 0 then PassThrough else if Rate cfg < 0 then DenyAll else Bucket)"

text \<open>The interval of \<open>refillLoop\<close>'s ticker.\<close>

definition refill_interval :: "float_env \<Rightarrow> rate_config \<Rightarrow> duration" where
  "refill_interval fe cfg =
     (let interval = fl_to_int64 fe (fl_div fe (fl_of_int fe second) (Rate cfg))
      in if interval < millisecond then millisecond else interval)"

definition new_limiter :: "float_env \<Rightarrow> instant \<Rightarrow> rate_config \<Rightarrow> limiter" where
  "new_limiter fe now cfg = \<lparr>rl_tokens = unat (Burst cfg), rl_cap = unat (Burst cfg),
     rl_closed = False, rl_refilling = True, rl_nextTick = now + refill_interval fe cfg\<rparr>"

text \<open>The error of a denied request; \<open>fmt\<close> is the text of a float under \<open>%v\<close>.\<close>

definition rl_denied_error :: "(rat \<Rightarrow> string) \<Rightarrow> rate_config \<Rightarrow> go_error" where
  "rl_denied_error fmt cfg = errorf_wv ErrRateLimited
     (''rate='' @ fmt (Rate cfg) @ '', burst='' @ itoa (uint (Burst cfg))
      @ '', wait_timeout='' @ duration_text (WaitTimeout cfg))"

text \<open>The channel operations: a non-blocking send by the refill loop, a receive by a caller.\<close>

definition rl_refill :: "limiter \<Rightarrow> limiter" where
  "rl_refill r = (if rl_tokens r < rl_cap r then r\<lparr>rl_tokens := rl_tokens r + 1\<rparr> else r)"

definition rl_take :: "limiter \<Rightarrow> limiter option" where
  "rl_take r = (if 0 < rl_tokens r then Some (r\<lparr>rl_tokens := rl_tokens r - 1\<rparr>) else None)"

text \<open>\<open>Close\<close>, idempotent by its compare-and-swap, and \<open>AvailableTokens\<close>.\<close>

definition rl_close :: "limiter \<Rightarrow> limiter" where
  "rl_close r = r\<lparr>rl_closed := True\<rparr>"

definition available_tokens :: "rate_config \<Rightarrow> limiter \<Rightarrow> nat" where
  "available_tokens cfg r = (if rl_gate cfg = Bucket then rl_tokens r else 0)"

subsection \<open>The token bucket as an interface\<close>

text \<open>What \<open>Execute\<close> relies on: a bucket whose content take lowers and refill raises, up to a cap.\<close>

locale token_bucket =
  fixes take :: "'b \<Rightarrow> 'b option" and refill :: "'b \<Rightarrow> 'b"
    and tokens :: "'b \<Rightarrow> nat" and cap :: "'b \<Rightarrow> nat"
  assumes take_None: "take b = None \<longleftrightarrow> tokens b = 0"
    and take_Some: "take b = Some b' \<Longrightarrow> tokens b = Suc (tokens b') \<and> cap b' = cap b"
    and refill_tokens: "tokens (refill b) = (if tokens b < cap b then Suc (tokens b) else tokens b)"
    and refill_cap: "cap (refill b) = cap b"
begin

lemma take_le: "tokens b \<le> cap b \<Longrightarrow> take b = Some b' \<Longrightarrow> tokens b' \<le> cap b'"
  using take_Some [of b b'] by simp

lemma refill_le: "tokens b \<le> cap b \<Longrightarrow> tokens (refill b) \<le> cap (refill b)"
  by (simp add: refill_tokens refill_cap)

lemma refill_gain: "tokens (refill b) \<le> Suc (tokens b)"
  by (simp add: refill_tokens)

lemma refill_full: "tokens b = cap b \<Longrightarrow> tokens (refill b) = cap b"
  by (simp add: refill_tokens)

lemma take_refill: "tokens b < cap b \<Longrightarrow> take (refill b) \<noteq> None"
  by (simp add: take_None refill_tokens)

end

interpretation bucket: token_bucket rl_take rl_refill rl_tokens rl_cap
  by unfold_locales (auto simp: rl_take_def rl_refill_def split: if_splits)

subsection \<open>The callers and the refill loop\<close>

datatype rl_pc =
    RlOutside
  | RlHead instant
  | RlBlocked instant
  | RlRunning
  | RlRefused go_error      \<comment> \<open>outside again, with the error \<open>Execute\<close> returned\<close>

record rl_sys =
  rls_limiter :: limiter
  rls_now :: instant
  rls_pc :: "nat \<Rightarrow> rl_pc"
  rls_ctx :: "nat \<Rightarrow> ctx"

datatype rl_label =
    RlClock duration | RlTick | RlTickDropped | RlStop | RlClose
  | RlEnter nat | RlAdmit nat | RlDeny nat | RlWait nat | RlTimer nat | RlCancel nat | RlLeave nat

inductive rl_step :: "rate_config \<Rightarrow> duration \<Rightarrow> (rat \<Rightarrow> string) \<Rightarrow> rl_sys \<Rightarrow> rl_label \<Rightarrow> rl_sys \<Rightarrow> bool"
  for cfg :: rate_config and interval :: duration and fmt :: "rat \<Rightarrow> string"
where
  rl_clock: "0 \<le> d \<Longrightarrow> rl_step cfg interval fmt s (RlClock d) (s\<lparr>rls_now := rls_now s + d\<rparr>)"
| rl_tick: "rl_refilling (rls_limiter s) \<Longrightarrow> rl_nextTick (rls_limiter s) \<le> rls_now s \<Longrightarrow>
     rl_step cfg interval fmt s RlTick
       (s\<lparr>rls_limiter := (rl_refill (rls_limiter s))\<lparr>rl_nextTick := rl_nextTick (rls_limiter s) + interval\<rparr>\<rparr>)"
| rl_tick_dropped: "rl_nextTick (rls_limiter s) \<le> rls_now s \<Longrightarrow>
     rl_step cfg interval fmt s RlTickDropped
       (s\<lparr>rls_limiter := (rls_limiter s)\<lparr>rl_nextTick := rl_nextTick (rls_limiter s) + interval\<rparr>\<rparr>)"
| rl_stop: "rl_closed (rls_limiter s) \<Longrightarrow> rl_step cfg interval fmt s RlStop
       (s\<lparr>rls_limiter := (rls_limiter s)\<lparr>rl_refilling := False\<rparr>\<rparr>)"
| rl_close_step: "rl_step cfg interval fmt s RlClose (s\<lparr>rls_limiter := rl_close (rls_limiter s)\<rparr>)"
| rl_enter: "rls_pc s t = RlOutside \<or> (\<exists>e. rls_pc s t = RlRefused e) \<Longrightarrow>
     rl_step cfg interval fmt s (RlEnter t)
       (s\<lparr>rls_pc := (rls_pc s)(t := RlHead (rls_now s + WaitTimeout cfg))\<rparr>)"
| rl_head_take: "rls_pc s t = RlHead dl \<Longrightarrow> rl_take (rls_limiter s) = Some r \<Longrightarrow>
     rl_step cfg interval fmt s (RlAdmit t) (s\<lparr>rls_limiter := r, rls_pc := (rls_pc s)(t := RlRunning)\<rparr>)"
| rl_head_deny: "rls_pc s t = RlHead dl \<Longrightarrow> rl_take (rls_limiter s) = None \<Longrightarrow>
     WaitTimeout cfg = 0 \<or> rls_now s > dl \<Longrightarrow>
     rl_step cfg interval fmt s (RlDeny t) (s\<lparr>rls_pc := (rls_pc s)(t := RlRefused (rl_denied_error fmt cfg))\<rparr>)"
| rl_head_block: "rls_pc s t = RlHead dl \<Longrightarrow> rl_take (rls_limiter s) = None \<Longrightarrow>
     \<not> (WaitTimeout cfg = 0 \<or> rls_now s > dl) \<Longrightarrow>
     rl_step cfg interval fmt s (RlWait t) (s\<lparr>rls_pc := (rls_pc s)(t := RlBlocked dl)\<rparr>)"
| rl_blocked_take: "rls_pc s t = RlBlocked dl \<Longrightarrow> rl_take (rls_limiter s) = Some r \<Longrightarrow>
     rl_step cfg interval fmt s (RlAdmit t) (s\<lparr>rls_limiter := r, rls_pc := (rls_pc s)(t := RlRunning)\<rparr>)"
| rl_blocked_timer: "rls_pc s t = RlBlocked dl \<Longrightarrow> dl \<le> rls_now s \<Longrightarrow>
     rl_step cfg interval fmt s (RlTimer t) (s\<lparr>rls_pc := (rls_pc s)(t := RlHead dl)\<rparr>)"
| rl_blocked_cancel: "rls_pc s t = RlBlocked dl \<Longrightarrow> ctx_err (rls_ctx s t) (rls_now s) = Some e \<Longrightarrow>
     rl_step cfg interval fmt s (RlCancel t) (s\<lparr>rls_pc := (rls_pc s)(t := RlRefused e)\<rparr>)"
| rl_leave: "rls_pc s t = RlRunning \<Longrightarrow>
     rl_step cfg interval fmt s (RlLeave t) (s\<lparr>rls_pc := (rls_pc s)(t := RlOutside)\<rparr>)"

inductive_cases rl_denyE: "rl_step cfg interval fmt s (RlDeny t) s'"
inductive_cases rl_waitE: "rl_step cfg interval fmt s (RlWait t) s'"
inductive_simps rl_admit_iff: "rl_step cfg interval fmt s (RlAdmit t) s'"

fun is_rl_admit :: "rl_label \<Rightarrow> bool" where
  "is_rl_admit (RlAdmit t) = True"
| "is_rl_admit l = False"

definition rl_init :: "float_env \<Rightarrow> rate_config \<Rightarrow> instant \<Rightarrow> rl_sys \<Rightarrow> bool" where
  "rl_init fe cfg now s \<longleftrightarrow> rls_limiter s = new_limiter fe now cfg \<and> rls_now s = now \<and>
     (\<forall>t. rls_pc s t = RlOutside)"

text \<open>The bucket never holds more than the burst.\<close>

interpretation rl_bounded: invariant_system
  "rl_init fe cfg now" "rl_step cfg interval fmt"
  "\<lambda>s. rl_tokens (rls_limiter s) \<le> rl_cap (rls_limiter s) \<and> rl_cap (rls_limiter s) = unat (Burst cfg)"
  for fe cfg now interval fmt
proof unfold_locales
  fix s l s'
  assume inv: "rl_tokens (rls_limiter s) \<le> rl_cap (rls_limiter s) \<and>
      rl_cap (rls_limiter s) = unat (Burst cfg)"
    and "rl_step cfg interval fmt s l s'"
  from this(2) show "rl_tokens (rls_limiter s') \<le> rl_cap (rls_limiter s') \<and>
      rl_cap (rls_limiter s') = unat (Burst cfg)"
    using inv
    by cases (auto simp: rl_close_def bucket.refill_tokens bucket.refill_cap dest: bucket.take_Some)
qed (simp add: rl_init_def new_limiter_def)

text \<open>Every admission takes a token, and every token was there at the start or came with a tick.\<close>

interpretation rl_tokens_paid: potential_system
  "rl_step cfg interval fmt" "\<lambda>s. rl_tokens (rls_limiter s)"
  "\<lambda>l. if is_rl_admit l then 1 else 0" "\<lambda>l. if l = RlTick then 1 else 0" for cfg interval fmt
proof unfold_locales
  fix s l s' assume "rl_step cfg interval fmt s l s'"
  then show "rl_tokens (rls_limiter s') + (if is_rl_admit l then 1 else 0)
      \<le> rl_tokens (rls_limiter s) + (if l = RlTick then 1 else 0)"
    by cases (auto simp: rl_close_def bucket.refill_tokens dest: bucket.take_Some)
qed

text \<open>The ticks processed by an instant: at most one per interval of the schedule.\<close>

lemma rl_clock_mono: "run (rl_step cfg interval fmt) s ls s' \<Longrightarrow> rls_now s \<le> rls_now s'"
proof (induction rule: run.induct)
  case (run_Cons s l t ls u)
  from run_Cons.hyps(1) have "rls_now s \<le> rls_now t" by cases auto
  with run_Cons show ?case by simp
qed simp

lemma rl_step_schedule:
  assumes "rl_step cfg interval fmt s l s'" and "0 \<le> interval"
  shows "rl_nextTick (rls_limiter s) + (if l = RlTick then interval else 0) \<le> rl_nextTick (rls_limiter s')"
    and "l = RlTick \<Longrightarrow> rl_nextTick (rls_limiter s) \<le> rls_now s'"
proof -
  show "rl_nextTick (rls_limiter s) + (if l = RlTick then interval else 0) \<le> rl_nextTick (rls_limiter s')"
    using assms by cases (auto simp: rl_close_def rl_refill_def rl_take_def split: if_splits)
  show "rl_nextTick (rls_limiter s) \<le> rls_now s'" if "l = RlTick"
    using assms(1) that by cases simp_all
qed

lemma rl_ticks_scheduled:
  assumes "run (rl_step cfg interval fmt) s ls s'" and "0 \<le> interval"
  shows "int (length (filter (\<lambda>l. l = RlTick) ls)) * interval
     \<le> max 0 (rls_now s' - rl_nextTick (rls_limiter s) + interval)"
  using assms
proof (induction rule: run.induct)
  case (run_Nil s)
  then show ?case by simp
next
  case (run_Cons s l t ls u)
  note step = rl_step_schedule [OF run_Cons.hyps(1) run_Cons.prems]
  from run_Cons have IH: "int (length (filter (\<lambda>l. l = RlTick) ls)) * interval
     \<le> max 0 (rls_now u - rl_nextTick (rls_limiter t) + interval)" by simp
  show ?case
  proof (cases "l = RlTick")
    case True
    with step IH rl_clock_mono [OF run_Cons.hyps(2)] show ?thesis
      by (simp add: algebra_simps max_def split: if_splits)
  next
    case False
    with step IH show ?thesis by (simp add: max_def split: if_splits)
  qed
qed

lemma refill_interval_ge: "millisecond \<le> refill_interval fe cfg"
  by (simp add: refill_interval_def Let_def)

text \<open>
  The bound of a millisecond is meant for high rates. It is also what a rate below one in some
  300 years gets where a conversion out of range gives the smallest \<open>int64\<close>.
\<close>

lemma refill_interval_tiny:
  "refill_interval exact_float \<lparr>Rate = 1 / 100000000000, WaitTimeout = 0, Burst = 1\<rparr> = millisecond"
  by (simp add: refill_interval_def exact_float_def fl_to_int64_def fl_to_int_def fl_div_def fl_of_int_def Let_def)

text \<open>The bound the limiter is for: burst plus elapsed time over the interval.\<close>

lemma rl_admitted_bound:
  assumes init: "rl_init fe cfg now s" and steps: "run (rl_step cfg (refill_interval fe cfg) fmt) s ls s'"
  shows "int (length (filter is_rl_admit ls)) * refill_interval fe cfg
     \<le> int (unat (Burst cfg)) * refill_interval fe cfg + (rls_now s' - now)"
proof -
  let ?i = "refill_interval fe cfg"
  have i: "0 \<le> ?i" using refill_interval_ge [of fe cfg] by linarith
  have tick0: "rl_nextTick (rls_limiter s) = now + ?i" and now: "now \<le> rls_now s'"
    using init rl_clock_mono [OF steps] by (simp_all add: rl_init_def new_limiter_def)
  have "length (filter is_rl_admit ls) \<le> unat (Burst cfg) + length (filter (\<lambda>l. l = RlTick) ls)"
    using rl_tokens_paid.run_cost_bound [OF steps] init
    by (simp add: sum_list_if_count rl_init_def new_limiter_def)
  then have "int (length (filter is_rl_admit ls)) * ?i
      \<le> (int (unat (Burst cfg)) + int (length (filter (\<lambda>l. l = RlTick) ls))) * ?i"
    using i by (intro mult_right_mono) linarith+
  also have "\<dots> \<le> int (unat (Burst cfg)) * ?i + (rls_now s' - now)"
    using rl_ticks_scheduled [OF steps i] tick0 now by (simp add: distrib_right)
  finally show ?thesis .
qed

text \<open>
  A caller past its deadline cannot block again: at the head of the loop it takes a token or is
  denied. Without a wait timeout it never blocks.
\<close>

lemma rl_head_decides:
  assumes "rls_pc s t = RlHead dl" and "WaitTimeout cfg = 0 \<or> dl < rls_now s"
  shows "\<not> rl_step cfg interval fmt s (RlWait t) s'"
    and "\<exists>l s'. (l = RlAdmit t \<or> l = RlDeny t) \<and> rl_step cfg interval fmt s l s'"
proof -
  show "\<not> rl_step cfg interval fmt s (RlWait t) s'"
    using assms by (auto elim: rl_waitE)
  show "\<exists>l s'. (l = RlAdmit t \<or> l = RlDeny t) \<and> rl_step cfg interval fmt s l s'"
    using assms by (cases "rl_take (rls_limiter s)") (auto intro: rl_step.intros)
qed

lemma rl_deny_only_empty:
  "rl_step cfg interval fmt s (RlDeny t) s' \<Longrightarrow>
   rl_tokens (rls_limiter s) = 0 \<and> rls_pc s' t = RlRefused (rl_denied_error fmt cfg)"
  by (elim rl_denyE) (simp add: bucket.take_None)

lemma rl_admit_only_token:
  "rls_pc s t = RlHead dl \<Longrightarrow>
   (\<exists>s'. rl_step cfg interval fmt s (RlAdmit t) s') \<longleftrightarrow> rl_tokens (rls_limiter s) \<noteq> 0"
  by (cases "rl_take (rls_limiter s)") (auto simp: rl_admit_iff rl_take_def split: if_splits)

end
