(* ===== verification/Chain.thy ===== *)
theory Chain
  imports Retry Timeouts Fallback Circuit_Exec Cache_Exec Request_Policies Bulkhead Rate_Limit
begin

section \<open>Policies and their composition: \<open>policy.go\<close>, the chains of \<open>client.go\<close>\<close>

text \<open>
  A value of the interface \<open>Policy\<close> is one of the repository's policies or the user's
  (\<open>PCustom\<close>). \<open>execute\<close> dispatches to the method of its type. The bulkhead, the rate limiter and
  the singleflight group involve other goroutines and have their own theories; in a chain each is
  an arbitrary function of its settings (\<open>conc_exec\<close>), so what is proved of chains holds for every behaviour they
  can have.

  The lemmas show that the three loops that build chains (\<open>chainPolicy.Execute\<close>, \<open>buildChain\<close>, and
  the one in \<open>New\<close> for a client with a request log) build the same function, and that chains nest.
\<close>

datatype concurrent_kind =
    BulkheadKind bulkhead_config
  | RateLimitKind rate_config
  | SingleflightKind int                  \<comment> \<open>\<open>maxBodySize\<close>\<close>

type_synonym executor = "ctx \<Rightarrow> nat \<Rightarrow> policy_func \<Rightarrow> reply prog"

text \<open>What such a policy does, given its settings, and what its getters return.\<close>

record behaviour =
  bv_exec :: "concurrent_kind \<Rightarrow> recorder \<Rightarrow> executor"
  bv_close :: "unit prog"
  bv_inFlight :: "world \<Rightarrow> u32"
  bv_denied :: "world \<Rightarrow> u64"
  bv_tokens :: "world \<Rightarrow> int"

record concurrent_policy =
  conc_kind :: concurrent_kind
  conc_metrics :: recorder
  conc_behaviour :: behaviour

definition conc_exec :: "concurrent_policy \<Rightarrow> executor" where
  "conc_exec p = bv_exec (conc_behaviour p) (conc_kind p) (conc_metrics p)"

datatype policy =
    PRetry retry_policy
  | PCircuit circuit_policy
  | PTimeout timeout_policy
  | PTimeoutMap timeout_map_policy
  | PAdaptive adaptive_policy
  | PFallback fallback_policy
  | PCache cache_policy
  | PRequestID request_id_policy
  | PInterceptor interceptor
  | PHooks hooks
  | PConcurrent concurrent_policy
  | PFunc policy_func
  | PChain "policy list"
  | PCustom executor

function execute :: "policy \<Rightarrow> executor" where
  "execute (PRetry p) c req next = retry_execute p c req next"
| "execute (PCircuit p) c req next = circuit_execute p c req next"
| "execute (PTimeout p) c req next = timeout_execute p c req next"
| "execute (PTimeoutMap p) c req next = timeout_map_execute p c req next"
| "execute (PAdaptive p) c req next = adaptive_execute p c req next"
| "execute (PFallback p) c req next = fallback_execute p c req next"
| "execute (PCache p) c req next = cache_execute p c req next"
| "execute (PRequestID p) c req next = request_id_execute p c req next"
| "execute (PInterceptor i) c req next = interceptor_execute i c req next"
| "execute (PHooks h) c req next = hooks_execute h c req next"
| "execute (PConcurrent p) c req next = conc_exec p c req next"
| "execute (PFunc f) c req next = f c req"
| "execute (PCustom e) c req next = e c req next"
| "execute (PChain ps) c req next = fold (\<lambda>p inner c req. execute p c req inner) (rev ps) next c req"
  by pat_completeness auto
termination
  by (relation "measure (\<lambda>(p, c, req, next). size p)")
    (auto simp: less_Suc_eq_le intro: size_list_estimation')

definition empty_chain_error :: go_error where
  "empty_chain_error = ErrorString ''ambatukam: empty policy chain''"

fun chain_of :: "policy list \<Rightarrow> policy" where
  "chain_of [] = PFunc (\<lambda>c req. return (None, Some empty_chain_error))"
| "chain_of [p] = p"
| "chain_of ps = PChain ps"

subsection \<open>The loops that build a chain\<close>

text \<open>\<open>buildChain\<close>: from the last policy to the first, around \<open>http.Client.Do\<close>.\<close>

definition build_chain :: "policy list \<Rightarrow> policy_func \<Rightarrow> policy_func" where
  "build_chain ps httpDo = fold (\<lambda>p next c req. execute p c req next) (rev ps) httpDo"

text \<open>The array \<open>wrapped\<close> of \<open>New\<close>, filled from its end.\<close>

fun wrap_all :: "policy list \<Rightarrow> policy_func \<Rightarrow> policy_func list" where
  "wrap_all [] httpDo = [httpDo]"
| "wrap_all (p # ps) httpDo =
     (let rest = wrap_all ps httpDo; inner = hd rest in (\<lambda>c req. execute p c req inner) # rest)"

text \<open>The reference: each policy runs around all that come after it.\<close>

fun nested :: "policy list \<Rightarrow> policy_func \<Rightarrow> policy_func" where
  "nested [] f = f"
| "nested (p # ps) f = (\<lambda>c req. execute p c req (nested ps f))"

lemma build_chain_Nil [simp]: "build_chain [] f = f"
  by (simp add: build_chain_def)

lemma build_chain_Cons [simp]: "build_chain (p # ps) f = (\<lambda>c req. execute p c req (build_chain ps f))"
  by (simp add: build_chain_def)

lemma build_chain_nested: "build_chain ps f = nested ps f"
  by (induction ps) simp_all

lemma build_chain_append: "build_chain (ps @ qs) f = build_chain ps (build_chain qs f)"
  by (induction ps) simp_all

lemma wrap_all_hd: "hd (wrap_all ps f) = build_chain ps f"
  by (induction ps) (simp_all add: Let_def)

lemma wrap_all_length: "length (wrap_all ps f) = length ps + 1"
  by (induction ps) (simp_all add: Let_def)

lemma execute_PChain: "execute (PChain ps) c req f = build_chain ps f c req"
  by (simp add: build_chain_def)

lemma execute_chain_of:
  "ps \<noteq> [] \<Longrightarrow> execute (chain_of ps) c req f = build_chain ps f c req"
  by (cases ps rule: chain_of.cases) (simp_all add: build_chain_def)

text \<open>Chains flatten: a chain inside a chain is the chain of all its policies in order.\<close>

lemma build_chain_flatten:
  "ps \<noteq> [] \<Longrightarrow> build_chain (qs @ chain_of ps # rs) f = build_chain (qs @ ps @ rs) f"
  by (simp add: build_chain_append execute_chain_of fun_eq_iff)

end
