(* ===== verification/Frames.thy ===== *)
theory Frames
  imports Chain
begin

section \<open>What running a policy can do to the world\<close>

text \<open>
  A relation between the world before and after that composes (\<open>world_order\<close> of theory \<open>World\<close>)
  and that each elementary effect keeps is kept by every policy, whatever the chain, as long as
  the code that is not in the repository (hooks, handlers, interceptors, the innermost function)
  keeps it. The locale \<open>plain_frame\<close> says what the elementary effects are; \<open>cell_frame\<close> adds the operations
  on the policies' own fields, and \<open>steps_execute_parts\<close> is proved once in it; \<open>frame\<close> is for a relation
  that does not look at these fields, and is used for the clock, for the trace and for the client's
  own statistics.
\<close>

text \<open>The code a policy calls that is not in the repository, and the recorder it reports to.\<close>

definition hooks_ok :: "(world \<Rightarrow> world \<Rightarrow> bool) \<Rightarrow> hooks \<Rightarrow> bool" where
  "hooks_ok R h \<longleftrightarrow>
     (\<forall>f req. BeforeRequest h = Some f \<longrightarrow> steps R (f req)) \<and>
     (\<forall>f req r e. AfterResponse h = Some f \<longrightarrow> steps R (f req r e)) \<and>
     (\<forall>f req n d. OnRetry h = Some f \<longrightarrow> steps R (f req n d)) \<and>
     (\<forall>f name s t. OnStateChange h = Some f \<longrightarrow> steps R (f name s t)) \<and>
     (\<forall>f req e. OnFallback h = Some f \<longrightarrow> steps R (f req e))"

definition executor_ok :: "(world \<Rightarrow> world \<Rightarrow> bool) \<Rightarrow> executor \<Rightarrow> bool" where
  "executor_ok R e \<longleftrightarrow> (\<forall>c req next. (\<forall>c req. steps R (next c req)) \<longrightarrow> steps R (e c req next))"

fun policy_ok :: "(world \<Rightarrow> world \<Rightarrow> bool) \<Rightarrow> (recorder \<Rightarrow> bool) \<Rightarrow> policy \<Rightarrow> bool" where
  "policy_ok R ok (PRetry p) \<longleftrightarrow> ok (rp_metrics p) \<and> hooks_ok R (rp_hooks p)"
| "policy_ok R ok (PCircuit p) \<longleftrightarrow> ok (cp_metrics p) \<and> hooks_ok R (cp_hooks p)"
| "policy_ok R ok (PTimeout p) \<longleftrightarrow> ok (tp_metrics p)"
| "policy_ok R ok (PTimeoutMap p) \<longleftrightarrow> ok (tm_metrics p)"
| "policy_ok R ok (PAdaptive p) \<longleftrightarrow> ok (ap_metrics p)"
| "policy_ok R ok (PFallback p) \<longleftrightarrow> ok (fp_metrics p) \<and> hooks_ok R (fp_hooks p) \<and>
     (\<forall>h req e. fp_handler p = Some h \<longrightarrow> steps R (h req e))"
| "policy_ok R ok (PCache p) \<longleftrightarrow> True"
| "policy_ok R ok (PRequestID p) \<longleftrightarrow> steps R (rid_gen p)"
| "policy_ok R ok (PInterceptor i) \<longleftrightarrow> executor_ok R (\<lambda>c. i)"
| "policy_ok R ok (PHooks h) \<longleftrightarrow> hooks_ok R h"
| "policy_ok R ok (PConcurrent p) \<longleftrightarrow> ok (conc_metrics p) \<and>
     (\<forall>k m. ok m \<longrightarrow> executor_ok R (bv_exec (conc_behaviour p) k m))"
| "policy_ok R ok (PFunc f) \<longleftrightarrow> (\<forall>c req. steps R (f c req))"
| "policy_ok R ok (PChain ps) \<longleftrightarrow> (\<forall>p \<in> set ps. policy_ok R ok p)"
| "policy_ok R ok (PCustom e) \<longleftrightarrow> executor_ok R e"

locale plain_frame = world_order R for R +
  fixes ok :: "recorder \<Rightarrow> bool"
  assumes R_clock: "w_now w \<le> t \<Longrightarrow> R w (w\<lparr>w_now := t\<rparr>)"
    and R_pos: "R w (w\<lparr>w_pos := n\<rparr>)"
    and R_sleep: "w_now w \<le> t \<Longrightarrow> R w (w\<lparr>w_now := t, w_trace := w_trace w @ [Slept d]\<rparr>)"
    and R_next: "R w (w\<lparr>w_next := n\<rparr>)"
    and R_requests: "R w (w\<lparr>w_requests := rqs\<rparr>)"
    and R_headers: "R w (w\<lparr>w_headers := hs\<rparr>)"
    and R_readers: "R w (w\<lparr>w_readers := rds\<rparr>)"
    and R_cancelled: "R w (w\<lparr>w_cancelled := cs\<rparr>)"
    and R_count: "f \<in> {count_hit, count_miss} \<Longrightarrow> R w (w\<lparr>w_stats := (w_stats w)(a := f (w_stats w a))\<rparr>)"
    and R_record: "ok r \<Longrightarrow> R w (record_metric r m w)"
begin

lemma steps_go_now: "steps R go_now"
proof -
  have "R w (w\<lparr>w_now := t, w_pos := n\<rparr>)" if "w_now w \<le> t" for w t n
    using R_trans [OF R_clock R_pos] that .
  then show ?thesis by (simp add: steps_def go_now_def Let_def)
qed

lemma steps_choices: "steps R go_rand" "steps R pick_case" "steps R (map_order ks)"
  by (simp_all add: steps_def go_rand_def pick_case_def map_order_def R_pos)

lemma steps_alloc: "steps R (alloc_reader rd)" "steps R (alloc_request rq)"
proof -
  have "R w (w\<lparr>w_next := n, w_readers := rds\<rparr>)" "R w (w\<lparr>w_next := n, w_requests := rqs\<rparr>)" for w n rds rqs
    using R_trans [OF R_next R_readers] R_trans [OF R_next R_requests] .
  then show "steps R (alloc_reader rd)" "steps R (alloc_request rq)"
    by (simp_all add: steps_def alloc_reader_def alloc_request_def Let_def)
qed

lemma steps_memory:
  "steps R (new_timeout c d)" "steps R (set_request i f)" "steps R (close_body i)" "steps R (set_header i k v)"
  "steps R (read_all i)" "steps R (read_limited i n)"
  by (simp_all add: steps_def new_timeout_def set_request_def close_body_def set_header_def modify_def
      read_all_def read_limited_def Let_def R_next R_requests R_readers R_headers R_refl split: option.split)

lemma steps_report: "ok r \<Longrightarrow> steps R (report r m)"
  by (simp add: steps_def report_def modify_def R_record)

lemma steps_timer: "steps R (timer_or_done c d)"
proof -
  have "R w (snd (timer_or_done c d w))" for w
  proof -
    let ?timer = "\<lambda>w'. R w' (w'\<lparr>w_now := w_now w + max 0 d, w_trace := w_trace w' @ [Slept d]\<rparr>)"
    have timer: "?timer w" "?timer (w\<lparr>w_pos := Suc (w_pos w)\<rparr>)"
      by (rule R_sleep; simp)+
    have pick: "R w (w\<lparr>w_pos := Suc (w_pos w)\<rparr>)" by (rule R_pos)
    have late: "w_now w \<le> t" if "ctx_done c = Some (t, e)" "ctx_error c w = None" for t e
      using that by (auto simp: ctx_error_def ctx_err_def split: if_splits)
    show ?thesis
      using timer pick R_refl [of w] late R_clock [of w] R_clock [of "w\<lparr>w_pos := Suc (w_pos w)\<rparr>"]
        R_trans [OF pick, of "(w\<lparr>w_pos := Suc (w_pos w)\<rparr>)\<lparr>w_now := w_now w + max 0 d, w_trace := w_trace w @ [Slept d]\<rparr>"]
        R_trans [OF pick]
      by (auto simp: timer_or_done_def bind_def get_def pick_case_def modify_def return_def Let_def
          split: option.splits if_splits)
  qed
  then show ?thesis by (simp add: steps_def)
qed

lemma steps_call_hook: "(\<And>f. h = Some f \<Longrightarrow> steps R (k f)) \<Longrightarrow> steps R (call_hook k h)"
  by (cases h) (simp_all add: call_hook_def steps_return)

lemmas frame_rules = steps_rules steps_go_now steps_choices steps_alloc steps_memory steps_report steps_timer

lemma steps_more:
  "steps R (with_context i c)" "steps R (new_bytes_reader bs)" "steps R (close_response r)"
  "steps R (with_body r bs)" "steps R (set_body i bs)"
  unfolding with_context_def new_bytes_reader_def close_response_def with_body_def set_body_def
  by (intro frame_rules)+

lemma steps_close_if_some: "steps R (close_if_some r)"
  unfolding close_if_some_def by (intro frame_rules steps_more)

lemmas frame_intros = frame_rules steps_more steps_close_if_some

end

text \<open>
  What each policy of a chain satisfies: \<open>fits\<close> says of a policy that the cells it points to are
  the ones it was made with.
\<close>

fun all_parts :: "(policy \<Rightarrow> bool) \<Rightarrow> policy \<Rightarrow> bool" where
  "all_parts fits (PChain ps) \<longleftrightarrow> (\<forall>p \<in> set ps. all_parts fits p)"
| "all_parts fits p \<longleftrightarrow> fits p"

lemma all_parts_True [simp]: "all_parts (\<lambda>_. True) p"
  by (induction p) auto

text \<open>A relation that the operations on the cells keep.\<close>

locale cell_frame = plain_frame R ok for R ok +
  fixes fits :: "policy \<Rightarrow> bool"
  assumes R_allow: "fits (PCircuit p) \<Longrightarrow>
      R w (set_circuit (cp_addr p) (snd (snd (allow_request (cp_cfg p) now1 now2 (w_circuits w (cp_addr p))))) w)"
    and R_verdict: "fits (PCircuit p) \<Longrightarrow>
      R w (set_circuit (cp_addr p) (snd (circuit_verdict p now gen rep (w_circuits w (cp_addr p)))) w)"
    and R_budget: "R w (w\<lparr>w_budgets := (w_budgets w)(a := snd (budget_allow (w_float w) now (w_budgets w a)))\<rparr>)"
    and R_sample: "R w (w\<lparr>w_adaptives := (w_adaptives w)(a := record_sample (w_float w) d (w_adaptives w a))\<rparr>)"
    and R_store: "key \<noteq> [] \<Longrightarrow>
      R w (w\<lparr>w_caches := (w_caches w)(a := cache_store cfg now1 now2 order key resp body (w_caches w a))\<rparr>)"
begin

text \<open>An update with a value computed from the state in which it happens.\<close>

lemma steps_get_modify:
  assumes "\<And>w. R w (f (g w) w)" and "\<And>x. steps R (k x)"
  shows "steps R (bind (get g) (\<lambda>x. bind (modify (f x)) (\<lambda>_. k x)))"
proof -
  have "R (f (g w) w) (snd (k (g w) (f (g w) w)))" for w
    using assms(2) by (simp add: steps_def)
  with assms(1) have "R w (snd (k (g w) (f (g w) w)))" for w by (blast intro: R_trans)
  then show ?thesis by (simp add: steps_def)
qed

lemma steps_bump: "f \<in> {count_hit, count_miss} \<Longrightarrow> steps R (bump f s)"
  by (cases s) (simp_all add: bump_def steps_return steps_modify R_count del: insert_iff)

lemma steps_cancel: "R w (cancel i w)"
  by (simp add: cancel_def R_cancelled)

lemma steps_budget_ask: "steps R (budget_ask a)"
  unfolding budget_ask_def
  by (intro steps_bind steps_go_now) (simp add: steps_def case_prod_beta R_budget)

lemma steps_should_retry: "steps R (should_retry p req r)"
  unfolding should_retry_def by (intro frame_rules steps_budget_ask)

lemma steps_retry_delay: "steps R (retry_delay p r n)"
  unfolding retry_delay_def backoff_delay_def parse_retry_after_def Let_def by (intro frame_rules)

lemma steps_buffer_body: "steps R (buffer_body cfg req)"
  unfolding buffer_body_def by (intro frame_intros)

lemma steps_retry_exhausted: "steps R (retry_exhausted req n r)"
  unfolding retry_exhausted_def by (intro frame_intros)

lemma steps_retry_loop:
  assumes "\<And>c req. steps R (next c req)" and "ok (rp_metrics p)" and "hooks_ok R (rp_hooks p)"
  shows "steps R (retry_loop p c req next body attempts attempt prev)"
  using assms
proof (induction p c req "next" body attempts attempt prev rule: retry_loop.induct)
  case (1 p c req "next" body attempts attempt prev)
  show ?case
    by (subst retry_loop.simps, intro frame_intros steps_should_retry steps_retry_delay
        steps_retry_exhausted steps_call_hook)
      (use 1 in \<open>auto simp: hooks_ok_def\<close>)
qed

lemma steps_retry:
  "(\<And>c req. steps R (next c req)) \<Longrightarrow> ok (rp_metrics p) \<Longrightarrow> hooks_ok R (rp_hooks p) \<Longrightarrow>
   steps R (retry_execute p c req next)"
  unfolding retry_execute_def
  by (intro steps_bind steps_buffer_body) (simp split: sum.split add: steps_return steps_retry_loop)

lemma steps_timed_reply: "ok m \<Longrightarrow> steps R (timed_reply m child c req r)"
  unfolding timed_reply_def by (intro frame_rules)

lemma steps_timed:
  "(\<And>c req. steps R (next c req)) \<Longrightarrow> ok m \<Longrightarrow> steps R (timed_execute m d c req next)"
  unfolding timed_execute_def
  by (intro frame_intros steps_deferred steps_cancel steps_timed_reply)

lemma steps_timeout_map:
  "(\<And>c req. steps R (next c req)) \<Longrightarrow> ok (tm_metrics t) \<Longrightarrow> steps R (timeout_map_execute t c req next)"
  unfolding timeout_map_execute_def match_rules_def by (intro frame_intros steps_timed)

lemma steps_adaptive:
  "(\<And>c req. steps R (next c req)) \<Longrightarrow> ok (ap_metrics p) \<Longrightarrow> steps R (adaptive_execute p c req next)"
  unfolding adaptive_execute_def adaptive_reply_def
  by (intro frame_intros steps_deferred steps_cancel steps_modify R_sample)

lemma steps_fallback:
  "(\<And>c req. steps R (next c req)) \<Longrightarrow> ok (fp_metrics p) \<Longrightarrow> hooks_ok R (fp_hooks p) \<Longrightarrow>
   (\<And>h req e. fp_handler p = Some h \<Longrightarrow> steps R (h req e)) \<Longrightarrow> steps R (fallback_execute p c req next)"
  unfolding fallback_execute_def run_handler_def
  by (intro frame_intros steps_call_hook) (auto simp: hooks_ok_def split: option.split intro: steps_panic)

lemma steps_announce_all:
  "ok (cp_metrics p) \<Longrightarrow> hooks_ok R (cp_hooks p) \<Longrightarrow> steps R (announce_all p ts)"
proof (induction ts)
  case (Cons t ts)
  then show ?case
    unfolding announce_all.simps announce_def
    by (intro frame_intros steps_call_hook) (auto simp: hooks_ok_def)
qed (simp add: steps_return)

lemma steps_circuit_parts:
  assumes "fits (PCircuit p)" and "ok (cp_metrics p)" and "hooks_ok R (cp_hooks p)"
  shows "steps R (circuit_allow p)" and "steps R (circuit_settle p gen r)"
proof -
  have allow: "steps R (bind (get (\<lambda>w. allow_request (cp_cfg p) now1 now2 (w_circuits w (cp_addr p))))
      (\<lambda>x. bind (modify (set_circuit (cp_addr p) (snd (snd x)))) (\<lambda>_. bind (announce_all p (fst (snd x))) (\<lambda>_. return (fst x)))))"
    for now1 now2
    by (rule steps_get_modify, rule R_allow [OF assms(1)])
      (intro steps_bind steps_announce_all steps_return assms)
  show "steps R (circuit_allow p)"
    unfolding circuit_allow_def case_prod_beta
    by (rule steps_bind [OF steps_go_now], rule steps_bind [OF steps_go_now], rule allow)
  have verdict: "steps R (bind (get (\<lambda>w. circuit_verdict p now gen r (w_circuits w (cp_addr p))))
      (\<lambda>x. bind (modify (set_circuit (cp_addr p) (snd x))) (\<lambda>_. announce_all p (fst x))))"
    for now
    by (rule steps_get_modify, rule R_verdict [OF assms(1)])
      (rule steps_announce_all [OF assms(2,3)])
  show "steps R (circuit_settle p gen r)"
    unfolding circuit_settle_def case_prod_beta by (rule steps_bind [OF steps_go_now], rule verdict)
qed

lemma steps_circuit:
  "(\<And>c req. steps R (next c req)) \<Longrightarrow> fits (PCircuit p) \<Longrightarrow> ok (cp_metrics p) \<Longrightarrow> hooks_ok R (cp_hooks p) \<Longrightarrow>
   steps R (circuit_execute p c req next)"
  unfolding circuit_execute_def by (intro frame_intros steps_circuit_parts)

lemma steps_cache_miss: "key \<noteq> [] \<Longrightarrow> steps R (cache_miss p key r)"
  unfolding cache_miss_def by (intro frame_intros steps_modify R_store)

lemma steps_cache:
  "(\<And>c req. steps R (next c req)) \<Longrightarrow> steps R (cache_execute p c req next)"
  unfolding cache_execute_def Let_def
  by (intro frame_intros steps_bump steps_cache_miss) (simp_all add: cache_key_not_Nil)

lemma steps_request_id:
  "(\<And>c req. steps R (next c req)) \<Longrightarrow> steps R (rid_gen p) \<Longrightarrow> steps R (request_id_execute p c req next)"
  unfolding request_id_execute_def by (intro frame_intros)

lemma steps_hooks:
  "(\<And>c req. steps R (next c req)) \<Longrightarrow> hooks_ok R h \<Longrightarrow> steps R (hooks_execute h c req next)"
  unfolding hooks_execute_def
  by (intro frame_intros steps_call_hook) (auto simp: hooks_ok_def)

text \<open>Every policy, and so every chain.\<close>

theorem steps_execute_parts:
  "policy_ok R ok p \<Longrightarrow> all_parts fits p \<Longrightarrow> (\<And>c req. steps R (next c req)) \<Longrightarrow> steps R (execute p c req next)"
proof (induction p c req "next" rule: execute.induct)
  case (14 ps c req "next")
  have "steps R (fold (\<lambda>p inner c req. execute p c req inner) qs f c req)"
    if "set qs \<subseteq> set ps" "\<And>c req. steps R (f c req)" for qs f c req
    using that
  proof (induction qs arbitrary: f c req)
    case (Cons q qs)
    then show ?case using 14 by (auto intro!: Cons.IH)
  qed simp
  from this [of "rev ps" "next"] 14(4) show ?case by simp
qed (simp_all add: steps_retry steps_circuit timeout_execute_def steps_timed steps_timeout_map steps_adaptive
    steps_fallback steps_cache steps_request_id steps_hooks interceptor_execute_def executor_ok_def conc_exec_def)

lemma steps_chain_parts:
  "(\<And>p. p \<in> set ps \<Longrightarrow> policy_ok R ok p \<and> all_parts fits p) \<Longrightarrow> (\<And>c req. steps R (f c req)) \<Longrightarrow>
   steps R (build_chain ps f c req)"
  by (induction ps arbitrary: c req) (auto intro: steps_execute_parts)

end

text \<open>A relation that does not look at the cells at all.\<close>

locale frame = plain_frame R ok for R ok +
  assumes R_circuits: "R w (w\<lparr>w_circuits := cbs\<rparr>)"
    and R_budgets: "R w (w\<lparr>w_budgets := rbs\<rparr>)"
    and R_adaptives: "R w (w\<lparr>w_adaptives := ads\<rparr>)"
    and R_caches: "R w (w\<lparr>w_caches := ts\<rparr>)"

sublocale frame \<subseteq> cell_frame R ok "\<lambda>_. True"
  by unfold_locales (simp_all add: set_circuit_def R_circuits R_budgets R_adaptives R_caches)

context frame begin

theorem steps_execute:
  "policy_ok R ok p \<Longrightarrow> (\<And>c req. steps R (next c req)) \<Longrightarrow> steps R (execute p c req next)"
  by (simp add: steps_execute_parts)

end

subsection \<open>The clock, the trace, the wire\<close>

interpretation clock_frame: frame "\<lambda>w w'. w_now w \<le> w_now w'" "\<lambda>_. True"
  by unfold_locales simp_all

interpretation trace_frame: frame "\<lambda>w w'. prefix (w_trace w) (w_trace w')" "\<lambda>_. True"
  by unfold_locales (simp_all add: record_metric_trace)

interpretation quiet_frame: frame "\<lambda>w w'. sent w' = sent w" "\<lambda>_. True"
  by unfold_locales (simp_all add: sent_def, simp flip: sent_def)

subsection \<open>The statistics of one client\<close>

text \<open>The counters of a client's recorder that its own methods keep, without the cache's.\<close>

definition core_counts ::
  "stats_recorder \<Rightarrow> u64 \<times> u64 \<times> u64 \<times> u64 \<times> u64 \<times> int \<times> instant \<times> cb_state option \<times> u64" where
  "core_counts s = (st_requests s, st_failed s, st_retries s, st_fallbacks s, st_timeouts s,
     st_totalDuration s, st_started s, st_circuitState s, st_bulkheadDenied s)"

definition same_core :: "nat \<Rightarrow> world \<Rightarrow> world \<Rightarrow> bool" where
  "same_core a w w' \<longleftrightarrow> core_counts (w_stats w' a) = core_counts (w_stats w a)"

lemma core_counts_cache [simp]:
  "f \<in> {count_hit, count_miss} \<Longrightarrow> core_counts (f s) = core_counts s"
  by (auto simp: core_counts_def count_hit_def count_miss_def)

interpretation core_frame: frame "same_core a" "\<lambda>r. a \<notin> recorder_stats r" for a
  by unfold_locales (simp_all add: same_core_def record_metric_stats_other)

subsection \<open>How many requests a chain sends\<close>

text \<open>Each retry policy of a chain multiplies what the policies after it send.\<close>

fun amplification :: "policy \<Rightarrow> nat" where
  "amplification (PRetry p) = nat (attempts_of p)"
| "amplification (PChain ps) = prod_list (map amplification ps)"
| "amplification p = 1"

text \<open>Code that is not in the repository sends no request but through the next policy.\<close>

definition sends_through :: "executor \<Rightarrow> bool" where
  "sends_through e \<longleftrightarrow> (\<forall>n c req next. (\<forall>c req. sends_le n (next c req)) \<longrightarrow> sends_le n (e c req next))"

abbreviation quiet_hooks :: "hooks \<Rightarrow> bool" where
  "quiet_hooks \<equiv> hooks_ok (\<lambda>w w'. sent w' = sent w)"

fun sends_ok :: "policy \<Rightarrow> bool" where
  "sends_ok (PRetry p) \<longleftrightarrow> quiet_hooks (rp_hooks p)"
| "sends_ok (PCircuit p) \<longleftrightarrow> quiet_hooks (cp_hooks p)"
| "sends_ok (PFallback p) \<longleftrightarrow> quiet_hooks (fp_hooks p) \<and>
     (\<forall>h req e. fp_handler p = Some h \<longrightarrow> sends_nothing (h req e))"
| "sends_ok (PRequestID p) \<longleftrightarrow> sends_nothing (rid_gen p)"
| "sends_ok (PInterceptor i) \<longleftrightarrow> sends_through (\<lambda>c. i)"
| "sends_ok (PHooks h) \<longleftrightarrow> quiet_hooks h"
| "sends_ok (PConcurrent p) \<longleftrightarrow> (\<forall>k m. sends_through (bv_exec (conc_behaviour p) k m))"
| "sends_ok (PFunc f) \<longleftrightarrow> (\<forall>c req. sends_nothing (f c req))"
| "sends_ok (PChain ps) \<longleftrightarrow> (\<forall>p \<in> set ps. sends_ok p)"
| "sends_ok (PCustom e) \<longleftrightarrow> sends_through e"
| "sends_ok p \<longleftrightarrow> True"

lemma sends_then_quiet: "sends_le n m \<Longrightarrow> (\<And>x. sends_nothing (f x)) \<Longrightarrow> sends_le n (bind m f)"
  using sends_bind [OF _ sends_quiet, of n m f] by simp

lemma sends_deferred: "sends_le n m \<Longrightarrow> (\<And>w. sent (d w) = sent w) \<Longrightarrow> sends_le n (deferred d m)"
  unfolding sends_le_def deferred_def by (auto split: result.splits prod.splits) (metis snd_conv)+

lemma sent_cancel [simp]: "sent (cancel i w) = sent w"
  by (simp add: cancel_def sent_def)

lemma sends_option: "sends_le n m \<Longrightarrow> (\<And>x. v = Some x \<Longrightarrow> sends_le n (f x)) \<Longrightarrow> sends_le n (case_option m f v)"
  by (cases v) simp_all

lemma sends_prod: "(\<And>x y. sends_le n (f x y)) \<Longrightarrow> sends_le n (case_prod f p)"
  by (cases p) simp

lemma sends_timed:
  "(\<And>c req. sends_le n (next c req)) \<Longrightarrow> sends_le n (timed_execute m d c req next)"
  unfolding timed_execute_def
  by (intro sends_if sends_prod sends_bind_quiet sends_deferred sends_then_quiet
      quiet_frame.steps_timed_reply quiet_frame.steps_memory quiet_frame.steps_more) simp_all

lemma sends_timeout_map:
  "(\<And>c req. sends_le n (next c req)) \<Longrightarrow> sends_le n (timeout_map_execute t c req next)"
  unfolding timeout_map_execute_def match_rules_def
  by (intro sends_bind_quiet sends_timed quiet_frame.frame_rules) simp_all

lemma sends_adaptive:
  "(\<And>c req. sends_le n (next c req)) \<Longrightarrow> sends_le n (adaptive_execute p c req next)"
  unfolding adaptive_execute_def adaptive_reply_def
  by (intro sends_bind_quiet sends_prod sends_deferred sends_then_quiet quiet_frame.frame_intros
      quiet.steps_modify quiet_frame.R_sample) simp_all

lemma sends_fallback:
  "(\<And>c req. sends_le n (next c req)) \<Longrightarrow> quiet_hooks (fp_hooks p) \<Longrightarrow>
   (\<And>h req e. fp_handler p = Some h \<Longrightarrow> sends_nothing (h req e)) \<Longrightarrow> sends_le n (fallback_execute p c req next)"
  unfolding fallback_execute_def run_handler_def
  by (intro sends_then_quiet quiet_frame.frame_intros quiet_frame.steps_call_hook)
    (auto simp: hooks_ok_def)

lemma sends_circuit:
  assumes "\<And>c req. sends_le n (next c req)" and "quiet_hooks (cp_hooks p)"
  shows "sends_le n (circuit_execute p c req next)"
proof -
  have allow: "sends_nothing (circuit_allow p)" and settle: "sends_nothing (circuit_settle p gen r)" for gen r
    by (intro quiet_frame.steps_circuit_parts assms(2) TrueI)+
  have "sends_le n (bind (next c req) (\<lambda>r. bind (circuit_settle p gen r) (\<lambda>_. return r)))" for gen
    by (intro sends_then_quiet assms(1) settle quiet.steps_bind quiet.steps_return)
  then show ?thesis
    unfolding circuit_execute_def
    by (intro sends_bind_quiet [OF allow] sends_prod sends_if sends_zero [OF quiet.steps_return])
qed

lemma sends_cache:
  assumes "\<And>c req. sends_le n (next c req)"
  shows "sends_le n (cache_execute p c req next)"
proof -
  have miss: "sends_le n (bind (next c req) (cache_miss p (cache_key m u)))" for m u
    by (intro sends_then_quiet assms quiet_frame.steps_cache_miss) (simp add: cache_key_not_Nil)
  have hit: "sends_nothing (bind (with_body (ce_resp e) (ce_body e)) (\<lambda>r. return (Some r, None)))" for e
    by (intro quiet_frame.frame_intros)
  show ?thesis
    unfolding cache_execute_def Let_def
    by (intro sends_bind_quiet [OF quiet.steps_get] sends_bind_quiet [OF quiet_frame.steps_go_now] sends_option
        sends_if assms sends_bind_quiet [OF quiet_frame.steps_bump] sends_zero [OF hit] miss) simp_all
qed

lemma sends_request_id:
  "(\<And>c req. sends_le n (next c req)) \<Longrightarrow> sends_nothing (rid_gen p) \<Longrightarrow> sends_le n (request_id_execute p c req next)"
  unfolding request_id_execute_def by (intro sends_bind_quiet quiet_frame.frame_intros)

lemma sends_hooks:
  assumes "\<And>c req. sends_le n (next c req)" and "quiet_hooks h"
  shows "sends_le n (hooks_execute h c req next)"
proof -
  have after: "sends_le n (bind (next c req) (\<lambda>r.
      bind (call_hook (\<lambda>f. f req (fst r) (snd r)) (AfterResponse h)) (\<lambda>_. return r)))"
    by (intro sends_then_quiet assms(1) quiet_frame.frame_intros quiet_frame.steps_call_hook)
      (use assms(2) in \<open>auto simp: hooks_ok_def\<close>)
  have before: "sends_nothing (case BeforeRequest h of None \<Rightarrow> return None | Some f \<Rightarrow> f req)"
    by (intro quiet_frame.frame_intros) (use assms(2) in \<open>auto simp: hooks_ok_def\<close>)
  show ?thesis
    unfolding hooks_execute_def
    by (intro sends_bind_quiet [OF before] sends_option sends_zero [OF quiet.steps_return] after)
qed

lemma sends_retry:
  "(\<And>c req. sends_le n (next c req)) \<Longrightarrow> quiet_hooks (rp_hooks p) \<Longrightarrow>
   sends_le (n * nat (attempts_of p)) (retry_execute p c req next)"
  by (rule retry_execute_sends) (auto simp: hooks_ok_def)

lemma sends_execute:
  "sends_ok p \<Longrightarrow> (\<And>c req. sends_le n (next c req)) \<Longrightarrow> sends_le (n * amplification p) (execute p c req next)"
proof (induction p c req "next" arbitrary: n rule: execute.induct)
  case (14 ps c req "next")
  have "sends_le (m * prod_list (map amplification qs)) (fold (\<lambda>p inner c req. execute p c req inner) qs f c req)"
    if "set qs \<subseteq> set ps" "\<And>c req. sends_le m (f c req)" for qs f m c req
    using that
  proof (induction qs arbitrary: f m c req)
    case (Cons q qs)
    have "sends_le (m * amplification q) (execute q c req f)" for c req
      using Cons.prems 14 by auto
    then have "sends_le (m * amplification q * prod_list (map amplification qs))
        (fold (\<lambda>p inner c req. execute p c req inner) qs (\<lambda>c req. execute q c req f) c req)"
      using Cons.prems(1) by (intro Cons.IH) auto
    then show ?case by (simp add: ac_simps)
  qed simp
  moreover have "prod_list (map amplification (rev ps)) = prod_list (map amplification ps)"
    by (simp flip: rev_map)
  ultimately show ?case using 14(3) [of _ _] by (metis amplification.simps(2) execute.simps(14) order_refl set_rev)
qed (simp_all add: sends_retry sends_circuit timeout_execute_def sends_timed sends_timeout_map sends_adaptive
    sends_fallback sends_cache sends_request_id sends_hooks interceptor_execute_def sends_through_def conc_exec_def
    sends_zero)

lemma sends_build_chain:
  assumes "\<And>p. p \<in> set ps \<Longrightarrow> sends_ok p" and "\<And>c req. sends_le n (f c req)"
  shows "sends_le (n * prod_list (map amplification ps)) (build_chain ps f c req)"
  using assms(1)
proof (induction ps arbitrary: c req)
  case (Cons p ps)
  have "sends_le (n * prod_list (map amplification ps) * amplification p) (execute p c req (build_chain ps f))"
    using Cons by (intro sends_execute) auto
  then show ?case by (simp add: ac_simps)
qed (simp add: assms(2))

end
