(* ===== verification/Client.thy ===== *)
theory Client
  imports Frames
begin

section \<open>The client: \<open>client.go\<close>, \<open>options.go\<close>, \<open>preset.go\<close>\<close>

text \<open>
  \<open>New\<close> applies the options in order, hands the client's hooks, recorder and settings to the
  policies it knows (\<open>wire_policy\<close>), appends the hooks, builds the chain, and only then wraps the
  recorder in the client's own statistics. In the code the policies are pointers that the chain
  shares with the client; here the list of policies is rewired before the chain is built from
  it, which comes to the same, since nothing runs in between. \<open>http.Client.Do\<close> is a policy
  function that ignores its context (the request carries one).

  The lemmas say what one call of \<open>Do\<close> records and sends, and which statistics a client can see.
\<close>

subsection \<open>Setters of the policies\<close>

definition retry_WithLogger :: "logger \<Rightarrow> retry_policy \<Rightarrow> retry_policy" where
  "retry_WithLogger l p = (if l \<noteq> NilLogger then p\<lparr>rp_logger := l\<rparr> else p)"

definition retry_WithHooks :: "hooks \<Rightarrow> retry_policy \<Rightarrow> retry_policy" where
  "retry_WithHooks h p = p\<lparr>rp_hooks := h\<rparr>"

definition retry_WithMetrics :: "recorder \<Rightarrow> retry_policy \<Rightarrow> retry_policy" where
  "retry_WithMetrics m p = (if m \<noteq> NilRecorder then p\<lparr>rp_metrics := m\<rparr> else p)"

definition retry_WithBudget :: "nat option \<Rightarrow> retry_policy \<Rightarrow> retry_policy" where
  "retry_WithBudget b p = p\<lparr>rp_budget := b\<rparr>"

definition circuit_WithLogger :: "logger \<Rightarrow> circuit_policy \<Rightarrow> circuit_policy" where
  "circuit_WithLogger l p = (if l \<noteq> NilLogger then p\<lparr>cp_logger := l\<rparr> else p)"

definition circuit_WithHooks :: "hooks \<Rightarrow> circuit_policy \<Rightarrow> circuit_policy" where
  "circuit_WithHooks h p = p\<lparr>cp_hooks := h\<rparr>"

definition circuit_WithMetrics :: "recorder \<Rightarrow> circuit_policy \<Rightarrow> circuit_policy" where
  "circuit_WithMetrics m p = (if m \<noteq> NilRecorder then p\<lparr>cp_metrics := m\<rparr> else p)"

definition circuit_WithName :: "string \<Rightarrow> circuit_policy \<Rightarrow> circuit_policy" where
  "circuit_WithName name p = (if name \<noteq> '''' then p\<lparr>cp_name := name\<rparr> else p)"

definition fallback_WithHooks :: "hooks \<Rightarrow> fallback_policy \<Rightarrow> fallback_policy" where
  "fallback_WithHooks h p = p\<lparr>fp_hooks := h\<rparr>"

definition fallback_WithMetrics :: "recorder \<Rightarrow> fallback_policy \<Rightarrow> fallback_policy" where
  "fallback_WithMetrics m p = (if m \<noteq> NilRecorder then p\<lparr>fp_metrics := m\<rparr> else p)"

definition timeout_WithMetrics :: "recorder \<Rightarrow> timeout_policy \<Rightarrow> timeout_policy" where
  "timeout_WithMetrics m p = (if m \<noteq> NilRecorder then p\<lparr>tp_metrics := m\<rparr> else p)"

definition timeout_map_WithMetrics :: "recorder \<Rightarrow> timeout_map_policy \<Rightarrow> timeout_map_policy" where
  "timeout_map_WithMetrics m p = (if m \<noteq> NilRecorder then p\<lparr>tm_metrics := m\<rparr> else p)"

definition adaptive_WithMetrics :: "recorder \<Rightarrow> adaptive_policy \<Rightarrow> adaptive_policy" where
  "adaptive_WithMetrics m p = p\<lparr>ap_metrics := m\<rparr>"

text \<open>\<open>WithMetrics\<close> of the bulkhead and of the rate limiter, \<open>SetMaxBodySize\<close> of the singleflight group.\<close>

definition conc_WithMetrics :: "recorder \<Rightarrow> concurrent_policy \<Rightarrow> concurrent_policy" where
  "conc_WithMetrics m p = (if m \<noteq> NilRecorder then p\<lparr>conc_metrics := m\<rparr> else p)"

definition sf_SetMaxBodySize :: "int \<Rightarrow> concurrent_policy \<Rightarrow> concurrent_policy" where
  "sf_SetMaxBodySize n p = p\<lparr>conc_kind := SingleflightKind n\<rparr>"

subsection \<open>Constructors\<close>

text \<open>\<open>ncpu\<close> is \<open>runtime.NumCPU()\<close>; a behaviour is what the goroutines of a policy do.\<close>

definition new_address :: "nat prog" where
  "new_address w = (Returned (w_next w), w\<lparr>w_next := Suc (w_next w)\<rparr>)"

definition NewCircuitBreaker :: "circuit_config \<Rightarrow> circuit_policy prog" where
  "NewCircuitBreaker cfg =
     bind new_address (\<lambda>a.
     bind (modify (set_circuit a new_circuit)) (\<lambda>_.
     return \<lparr>cp_addr = a, cp_cfg = circuit_defaults cfg, cp_hooks = no_hooks, cp_metrics = NilRecorder,
       cp_logger = DefaultLogger, cp_name = ''default''\<rparr>))"

definition NewCache :: "cache_config \<Rightarrow> cache_policy prog" where
  "NewCache cfg =
     bind new_address (\<lambda>a.
     bind (modify (\<lambda>w. w\<lparr>w_caches := (w_caches w)(a := [])\<rparr>)) (\<lambda>_.
     return \<lparr>ch_addr = a, ch_cfg = cache_defaults cfg, ch_stats = None\<rparr>))"

definition NewAdaptive :: "adaptive_config \<Rightarrow> adaptive_policy prog" where
  "NewAdaptive cfg =
     bind new_address (\<lambda>a.
     bind (modify (\<lambda>w. w\<lparr>w_adaptives := (w_adaptives w)(a := NewAdaptiveTimeout cfg)\<rparr>)) (\<lambda>_.
     return \<lparr>ap_addr = a, ap_metrics = NilRecorder\<rparr>))"

definition NewBudget :: "rat \<Rightarrow> duration \<Rightarrow> nat prog" where
  "NewBudget budget window =
     bind new_address (\<lambda>a.
     bind go_now (\<lambda>now.
     bind (modify (\<lambda>w. w\<lparr>w_budgets := (w_budgets w)(a := NewRetryBudget (w_float w) now budget window)\<rparr>)) (\<lambda>_.
     return a)))"

definition NewBulkhead :: "nat \<Rightarrow> behaviour \<Rightarrow> bulkhead_config \<Rightarrow> concurrent_policy" where
  "NewBulkhead ncpu b cfg = \<lparr>conc_kind = BulkheadKind (bulkhead_defaults ncpu cfg), conc_metrics = NilRecorder,
     conc_behaviour = b\<rparr>"

definition NewRateLimit :: "behaviour \<Rightarrow> rate_config \<Rightarrow> concurrent_policy" where
  "NewRateLimit b cfg = \<lparr>conc_kind = RateLimitKind (rate_defaults cfg), conc_metrics = NilRecorder,
     conc_behaviour = b\<rparr>"

definition NewSingleflight :: "behaviour \<Rightarrow> concurrent_policy" where
  "NewSingleflight b = \<lparr>conc_kind = SingleflightKind 0, conc_metrics = NilRecorder, conc_behaviour = b\<rparr>"

subsection \<open>The client and its options\<close>

record client =
  c_hooks :: hooks
  c_metrics :: recorder
  c_policies :: "policy list"
  c_hc :: "nat \<Rightarrow> reply prog"           \<comment> \<open>\<open>http.Client.Do\<close>\<close>
  c_logger :: logger
  c_hcRef :: nat                        \<comment> \<open>where its health checker is kept\<close>
  c_chain :: policy_func
  c_maxBodySize :: int
  c_cache :: "nat option"
  c_retryBudget :: "nat option"
  c_adaptiveTimeout :: "nat option"
  c_requestLogger :: "request_logger option"
  c_stats :: nat

type_synonym client_option = "client \<Rightarrow> client prog"

definition add_policy :: "policy \<Rightarrow> client \<Rightarrow> client" where
  "add_policy p c = c\<lparr>c_policies := c_policies c @ [p]\<rparr>"

definition WithRetry :: "retry_config \<Rightarrow> client_option" where
  "WithRetry cfg c = return (add_policy (PRetry (retry_WithLogger (c_logger c) (NewRetry cfg))) c)"

definition WithCircuitBreaker :: "circuit_config \<Rightarrow> client_option" where
  "WithCircuitBreaker cfg c = bind (NewCircuitBreaker cfg) (\<lambda>cb.
     return (add_policy (PCircuit (circuit_WithLogger (c_logger c) cb)) c))"

definition WithTimeout :: "duration \<Rightarrow> client_option" where
  "WithTimeout d c = return (add_policy (PTimeout (NewTimeout d)) c)"

definition WithBulkhead :: "nat \<Rightarrow> behaviour \<Rightarrow> bulkhead_config \<Rightarrow> client_option" where
  "WithBulkhead ncpu b cfg c = return (add_policy (PConcurrent (NewBulkhead ncpu b cfg)) c)"

definition WithRateLimit :: "behaviour \<Rightarrow> rate_config \<Rightarrow> client_option" where
  "WithRateLimit b cfg c = return (add_policy (PConcurrent (NewRateLimit b cfg)) c)"

definition WithHTTPClient :: "(nat \<Rightarrow> reply prog) \<Rightarrow> client_option" where
  "WithHTTPClient hc c = return (c\<lparr>c_hc := hc\<rparr>)"

definition WithLogger :: "logger \<Rightarrow> client_option" where
  "WithLogger l c = return (c\<lparr>c_logger := l\<rparr>)"

definition WithCustomLogger :: "nat \<Rightarrow> client_option" where
  "WithCustomLogger l c = return (c\<lparr>c_logger := CustomLogger l\<rparr>)"

definition WithDebug :: client_option where
  "WithDebug c = return (c\<lparr>c_logger := DebugLogger\<rparr>)"

definition WithPolicy :: "policy \<Rightarrow> client_option" where
  "WithPolicy p c = return (add_policy p c)"

definition WithRequestID :: "string \<Rightarrow> client_option" where
  "WithRequestID header c = return (add_policy (PRequestID (rid_WithHeader header NewRequestIDPolicy)) c)"

definition WithRequestIDPolicy :: "request_id_policy \<Rightarrow> client_option" where
  "WithRequestIDPolicy p c = return (add_policy (PRequestID p) c)"

definition WithHooks :: "hooks \<Rightarrow> client_option" where
  "WithHooks h c = return (c\<lparr>c_hooks := h\<rparr>)"

definition WithFallback :: "fallback_handler option \<Rightarrow> client_option" where
  "WithFallback h c = return (add_policy (PFallback (NewFallback h)) c)"

definition WithSingleflight :: "behaviour \<Rightarrow> client_option" where
  "WithSingleflight b c = return (add_policy (PConcurrent (NewSingleflight b)) c)"

definition WithMetrics :: "recorder \<Rightarrow> client_option" where
  "WithMetrics r c = return (c\<lparr>c_metrics := r\<rparr>)"

definition WithTimeoutMap :: "(string \<times> duration) list \<Rightarrow> client_option" where
  "WithTimeoutMap rules c = return (add_policy (PTimeoutMap (NewTimeoutMap rules)) c)"

definition WithMaxBodySize :: "int \<Rightarrow> client_option" where
  "WithMaxBodySize n c = return (c\<lparr>c_maxBodySize := n\<rparr>)"

definition WithCache :: "cache_config \<Rightarrow> client_option" where
  "WithCache cfg c = bind (NewCache cfg) (\<lambda>p. return ((add_policy (PCache p) c)\<lparr>c_cache := Some (ch_addr p)\<rparr>))"

definition WithInterceptor :: "interceptor \<Rightarrow> client_option" where
  "WithInterceptor i c = return (add_policy (PInterceptor i) c)"

definition WithAdaptiveTimeout :: "adaptive_config \<Rightarrow> client_option" where
  "WithAdaptiveTimeout cfg c = bind (NewAdaptive cfg) (\<lambda>p.
     return ((add_policy (PAdaptive p) c)\<lparr>c_adaptiveTimeout := Some (ap_addr p)\<rparr>))"

definition WithRetryBudget :: "rat \<Rightarrow> duration \<Rightarrow> client_option" where
  "WithRetryBudget budget window c = bind (NewBudget budget window) (\<lambda>a. return (c\<lparr>c_retryBudget := Some a\<rparr>))"

text \<open>The sink of the log is the configuration's logger, or the default one.\<close>

record request_log_config =
  rl_Logger :: "(log_record \<Rightarrow> world \<Rightarrow> world) option"
  rl_LogHeaders :: "string list"
  rl_LogBody :: bool

definition NewRequestLogger :: "(log_record \<Rightarrow> world \<Rightarrow> world) \<Rightarrow> request_log_config \<Rightarrow> request_logger" where
  "NewRequestLogger dflt cfg =
     (let l = (case rl_Logger cfg of None \<Rightarrow> dflt | Some f \<Rightarrow> f)
      in \<lparr>lg_logger = l, lg_headers = rl_LogHeaders cfg, lg_body = rl_LogBody cfg\<rparr>)"

definition WithRequestLog :: "(log_record \<Rightarrow> world \<Rightarrow> world) \<Rightarrow> request_log_config \<Rightarrow> client_option" where
  "WithRequestLog dflt cfg c =
     (let rl = NewRequestLogger dflt cfg in return (c\<lparr>c_requestLogger := Some rl\<rparr>))"

fun apply_options :: "client_option list \<Rightarrow> client \<Rightarrow> client prog" where
  "apply_options [] c = return c"
| "apply_options (opt # opts) c = bind (opt c) (apply_options opts)"

subsection \<open>New\<close>

text \<open>The type switch of \<open>New\<close>; policies inside a \<open>Chain\<close> and the other types are left alone.\<close>

fun wire_policy :: "client \<Rightarrow> policy \<Rightarrow> policy" where
  "wire_policy c (PRetry p) =
     (let p = retry_WithHooks (c_hooks c) p;
          p = retry_WithMetrics (c_metrics c) p;
          p = (if c_maxBodySize c > 0 \<and> rc_MaxBodySize (rp_cfg p) = 0
               then p\<lparr>rp_cfg := (rp_cfg p)\<lparr>rc_MaxBodySize := c_maxBodySize c\<rparr>\<rparr> else p);
          p = (if c_retryBudget c \<noteq> None then retry_WithBudget (c_retryBudget c) p else p)
      in PRetry p)"
| "wire_policy c (PCircuit p) = PCircuit (circuit_WithMetrics (c_metrics c) (circuit_WithHooks (c_hooks c) p))"
| "wire_policy c (PFallback p) = PFallback (fallback_WithMetrics (c_metrics c) (fallback_WithHooks (c_hooks c) p))"
| "wire_policy c (PTimeout p) = PTimeout (timeout_WithMetrics (c_metrics c) p)"
| "wire_policy c (PConcurrent p) = PConcurrent
     (case conc_kind p of
        SingleflightKind n \<Rightarrow> if c_maxBodySize c > 0 then sf_SetMaxBodySize (c_maxBodySize c) p else p
      | _ \<Rightarrow> conc_WithMetrics (c_metrics c) p)"
| "wire_policy c p = p"

definition needs_hooks_policy :: "hooks \<Rightarrow> bool" where
  "needs_hooks_policy h \<longleftrightarrow> BeforeRequest h \<noteq> None \<or> AfterResponse h \<noteq> None"

text \<open>\<open>c.cache.SetStats(c.stats)\<close>, on the policy the pointer \<open>c.cache\<close> points to.\<close>

fun set_cache_stats :: "nat option \<Rightarrow> nat \<Rightarrow> policy \<Rightarrow> policy" where
  "set_cache_stats cache a (PCache p) = PCache (if cache = Some (ch_addr p) then p\<lparr>ch_stats := Some a\<rparr> else p)"
| "set_cache_stats cache a p = p"

definition http_do :: "(nat \<Rightarrow> reply prog) \<Rightarrow> policy_func" where
  "http_do hc c req = hc req"

definition client_chain :: "client \<Rightarrow> policy_func" where
  "client_chain c = (case c_requestLogger c of
       Some l \<Rightarrow> log_wrap l (hd (wrap_all (c_policies c) (http_do (c_hc c))))
     | None \<Rightarrow> build_chain (c_policies c) (http_do (c_hc c)))"

definition initial_client :: "nat \<Rightarrow> (nat \<Rightarrow> reply prog) \<Rightarrow> client" where
  "initial_client a hc = \<lparr>c_hooks = no_hooks, c_metrics = NoopRecorder, c_policies = [], c_hc = hc,
     c_logger = DefaultLogger, c_hcRef = a, c_chain = http_do hc, c_maxBodySize = 0, c_cache = None,
     c_retryBudget = None, c_adaptiveTimeout = None, c_requestLogger = None, c_stats = a\<rparr>"

text \<open>What \<open>New\<close> makes of the client the options leave; \<open>a\<close> is where the statistics are kept.\<close>

definition finish_client :: "client \<Rightarrow> nat \<Rightarrow> client" where
  "finish_client c a =
     (let c = c\<lparr>c_policies := map (wire_policy c) (c_policies c)\<rparr>;
          c = (if needs_hooks_policy (c_hooks c) then add_policy (PHooks (c_hooks c)) c else c);
          c = c\<lparr>c_policies := map (set_cache_stats (c_cache c) a) (c_policies c)\<rparr>;
          c = c\<lparr>c_chain := client_chain c\<rparr>
      in c\<lparr>c_stats := a, c_metrics := StatsRecorder a (c_metrics c)\<rparr>)"

definition new_stats :: "nat prog" where
  "new_stats =
     bind new_address (\<lambda>a.
     bind go_now (\<lambda>now.
     bind (modify (\<lambda>w. w\<lparr>w_stats := (w_stats w)(a := newStatsRecorder now)\<rparr>)) (\<lambda>_.
     return a)))"

definition NewClient :: "(nat \<Rightarrow> reply prog) \<Rightarrow> client_option list \<Rightarrow> client prog" where
  "NewClient default_client opts =
     bind new_address (\<lambda>ref.
     bind (apply_options opts (initial_client ref default_client)) (\<lambda>c.
     bind new_stats (\<lambda>a.
     return (finish_client c a))))"

subsection \<open>Do and the methods of the verbs\<close>

definition client_do :: "client \<Rightarrow> nat option \<Rightarrow> reply prog" where
  "client_do c req =
     (case req of
        None \<Rightarrow> return (None, Some (errorf_tw ''ambatukam.Do'' ErrNilRequest))
      | Some i \<Rightarrow>
          bind go_now (\<lambda>start.
          bind (get (\<lambda>w. rq_ctx (w_requests w i))) (\<lambda>ctx.
          bind (c_chain c ctx i) (\<lambda>r.
          bind go_now (\<lambda>now.
          bind (get (\<lambda>w. w_requests w i)) (\<lambda>rq.
          bind (report (c_metrics c) (MRequest (rq_method rq) (rq_url rq) (statusFromResp (fst r)) (now - start))) (\<lambda>_.
          return r)))))))"

text \<open>
  \<open>http.NewRequestWithContext\<close>: \<open>parse\<close> is \<open>url.Parse\<close>, giving the URL's text and path. A body is a
  reader; for the readers whose content the library can see, its bytes are known.
\<close>

type_synonym url_parser = "string \<Rightarrow> go_error + (string \<times> string)"

record io_body =
  io_reader :: nat
  io_known :: "bytes option"

definition new_request ::
  "url_parser \<Rightarrow> ctx \<Rightarrow> string \<Rightarrow> string \<Rightarrow> io_body option \<Rightarrow> (go_error + nat) prog" where
  "new_request parse c meth url body =
     (case parse url of
        Inl e \<Rightarrow> return (Inl e)
      | Inr (u, path) \<Rightarrow>
          bind new_address (\<lambda>h.
          bind (modify (\<lambda>w. w\<lparr>w_headers := (w_headers w)(h := \<lambda>_. None)\<rparr>)) (\<lambda>_.
          bind (alloc_request \<lparr>rq_method = meth, rq_url = u, rq_path = path, rq_header = h,
              rq_body = map_option io_reader body,
              rq_get_body = (case body of None \<Rightarrow> None | Some b \<Rightarrow> io_known b),
              rq_content_length = (case body of None \<Rightarrow> 0
                | Some b \<Rightarrow> (case io_known b of None \<Rightarrow> 0 | Some bs \<Rightarrow> int (length bs))),
              rq_ctx = c\<rparr>) (\<lambda>i. return (Inr i)))))"

definition send_bare :: "string \<Rightarrow> url_parser \<Rightarrow> client \<Rightarrow> ctx \<Rightarrow> string \<Rightarrow> reply prog" where
  "send_bare meth parse c cx url =
     bind (new_request parse cx meth url None) (\<lambda>r.
       case r of Inl e \<Rightarrow> return (None, Some e) | Inr i \<Rightarrow> client_do c (Some i))"

definition send_body :: "string \<Rightarrow> url_parser \<Rightarrow> client \<Rightarrow> ctx \<Rightarrow> string \<Rightarrow> string \<Rightarrow> io_body option \<Rightarrow> reply prog" where
  "send_body meth parse c cx url contentType body =
     bind (new_request parse cx meth url body) (\<lambda>r.
       case r of
         Inl e \<Rightarrow> return (None, Some e)
       | Inr i \<Rightarrow> bind (set_header i ''Content-Type'' contentType) (\<lambda>_. client_do c (Some i)))"

definition client_Get :: "url_parser \<Rightarrow> client \<Rightarrow> ctx \<Rightarrow> string \<Rightarrow> reply prog" where
  "client_Get = send_bare MethodGet"

definition client_Delete :: "url_parser \<Rightarrow> client \<Rightarrow> ctx \<Rightarrow> string \<Rightarrow> reply prog" where
  "client_Delete = send_bare MethodDelete"

definition client_Head :: "url_parser \<Rightarrow> client \<Rightarrow> ctx \<Rightarrow> string \<Rightarrow> reply prog" where
  "client_Head = send_bare MethodHead"

definition client_Options :: "url_parser \<Rightarrow> client \<Rightarrow> ctx \<Rightarrow> string \<Rightarrow> reply prog" where
  "client_Options = send_bare MethodOptions"

definition client_Post ::
  "url_parser \<Rightarrow> client \<Rightarrow> ctx \<Rightarrow> string \<Rightarrow> string \<Rightarrow> io_body option \<Rightarrow> reply prog" where
  "client_Post = send_body MethodPost"

definition client_Put ::
  "url_parser \<Rightarrow> client \<Rightarrow> ctx \<Rightarrow> string \<Rightarrow> string \<Rightarrow> io_body option \<Rightarrow> reply prog" where
  "client_Put = send_body MethodPut"

definition client_Patch ::
  "url_parser \<Rightarrow> client \<Rightarrow> ctx \<Rightarrow> string \<Rightarrow> string \<Rightarrow> io_body option \<Rightarrow> reply prog" where
  "client_Patch = send_body MethodPatch"

definition do_with_context :: "client \<Rightarrow> ctx \<Rightarrow> nat option \<Rightarrow> reply prog" where
  "do_with_context c cx req =
     (case req of
        None \<Rightarrow> return (None, Some (errorf_tw ''ambatukam.DoWithContext'' ErrNilRequest))
      | Some i \<Rightarrow> bind (with_context i cx) (\<lambda>j. client_do c (Some j)))"

text \<open>\<open>RoundTrip\<close>, also behind \<open>Transport\<close>.\<close>

definition round_trip :: "client \<Rightarrow> nat option \<Rightarrow> reply prog" where
  "round_trip c req = client_do c req"

subsection \<open>Stats and Close\<close>

text \<open>The loop of \<open>Stats\<close> over the policies: a later bulkhead or rate limiter replaces an earlier one's value.\<close>

fun gauge_policies :: "world \<Rightarrow> policy list \<Rightarrow> u32 \<times> int \<Rightarrow> u32 \<times> int" where
  "gauge_policies w [] g = g"
| "gauge_policies w (PConcurrent p # ps) (b, r) = gauge_policies w ps
     (case conc_kind p of
        BulkheadKind cfg \<Rightarrow> (bv_inFlight (conc_behaviour p) w, r)
      | RateLimitKind cfg \<Rightarrow> (b, bv_tokens (conc_behaviour p) w)
      | SingleflightKind n \<Rightarrow> (b, r))"
| "gauge_policies w (p # ps) g = gauge_policies w ps g"

definition stats_of :: "client \<Rightarrow> client_stats prog" where
  "stats_of c =
     bind (get (\<lambda>w. gauge_policies w (c_policies c) (0, 0))) (\<lambda>(b, r).
     bind go_now (\<lambda>now.
     get (\<lambda>w. stats_snapshot now b r (w_stats w (c_stats c)))))"

fun close_policies :: "policy list \<Rightarrow> unit prog" where
  "close_policies [] = return ()"
| "close_policies (PConcurrent p # ps) =
     bind (case conc_kind p of SingleflightKind n \<Rightarrow> return () | _ \<Rightarrow> bv_close (conc_behaviour p)) (\<lambda>_.
     close_policies ps)"
| "close_policies (p # ps) = close_policies ps"

text \<open>\<open>close\<close> of a channel that is closed panics.\<close>

definition checker_close :: "nat \<Rightarrow> unit prog" where
  "checker_close ref w = (case w_checkers w ref of
       None \<Rightarrow> (Panicked nil_dereference, w)
     | Some h \<Rightarrow>
         if hk_stopped h then (Panicked ''close of closed channel'', w)
         else (Returned (), w\<lparr>w_checkers := (w_checkers w)(ref \<mapsto> h\<lparr>hk_stopped := True\<rparr>)\<rparr>))"

text \<open>The result of \<open>Close\<close> is always a nil error.\<close>

definition client_close :: "client \<Rightarrow> unit prog" where
  "client_close c =
     bind (close_policies (c_policies c)) (\<lambda>_.
     bind (get (\<lambda>w. w_checkers w (c_hcRef c))) (\<lambda>h.
     if h \<noteq> None then checker_close (c_hcRef c) else return ()))"

subsection \<open>Presets\<close>

text \<open>\<open>time.Duration\<close>s in nanoseconds; the number of processors is converted to 32 bits.\<close>

definition preset_retry :: "int \<Rightarrow> duration \<Rightarrow> duration \<Rightarrow> retry_config" where
  "preset_retry n initial m = \<lparr>rc_Backoff = None, rc_ShouldRetry = None, rc_InitialBackoff = initial,
     rc_MaxBackoff = m, rc_Multiplier = 2, rc_Jitter = 1 / 5, rc_MaxRetries = n, rc_MaxBodySize = 0\<rparr>"

definition preset_circuit :: "u32 \<Rightarrow> duration \<Rightarrow> u32 \<Rightarrow> circuit_config" where
  "preset_circuit n d reqs = \<lparr>ShouldTrip = None, OpenDuration = d, FailureThreshold = n, HalfOpenMaxReqs = reqs\<rparr>"

text \<open>What the environment gives the policies with goroutines.\<close>

record preset_env =
  pe_ncpu :: nat
  pe_bulkhead :: behaviour
  pe_ratelimit :: behaviour
  pe_singleflight :: behaviour

definition DefaultConfig :: "preset_env \<Rightarrow> client_option list" where
  "DefaultConfig e =
     [WithRetry (preset_retry 3 (100 * millisecond) (5 * second)),
      WithCircuitBreaker (preset_circuit 5 (30 * second) 1),
      WithTimeout (30 * second),
      WithBulkhead (pe_ncpu e) (pe_bulkhead e)
        \<lparr>MaxConcurrent = of_nat (pe_ncpu e * 4), MaxQueue = 0, QueueTimeout = 0, Priority = False\<rparr>]"

definition ProductionConfig :: "preset_env \<Rightarrow> client_option list" where
  "ProductionConfig e = DefaultConfig e"

definition AggressiveConfig :: "preset_env \<Rightarrow> client_option list" where
  "AggressiveConfig e =
     [WithRetry (preset_retry 1 (50 * millisecond) (500 * millisecond)),
      WithCircuitBreaker (preset_circuit 3 (10 * second) 1),
      WithTimeout (5 * second),
      WithBulkhead (pe_ncpu e) (pe_bulkhead e)
        \<lparr>MaxConcurrent = of_nat (pe_ncpu e * 2), MaxQueue = 0, QueueTimeout = 0, Priority = False\<rparr>,
      WithRateLimit (pe_ratelimit e) \<lparr>Rate = 50, WaitTimeout = 200 * millisecond, Burst = 20\<rparr>,
      WithSingleflight (pe_singleflight e)]"

definition ConservativeConfig :: "preset_env \<Rightarrow> client_option list" where
  "ConservativeConfig e =
     [WithRetry (preset_retry 5 (200 * millisecond) (30 * second)),
      WithCircuitBreaker (preset_circuit 20 (60 * second) 3),
      WithTimeout (60 * second),
      WithBulkhead (pe_ncpu e) (pe_bulkhead e)
        \<lparr>MaxConcurrent = of_nat (pe_ncpu e * 8), MaxQueue = 200, QueueTimeout = 500 * millisecond, Priority = False\<rparr>,
      WithRateLimit (pe_ratelimit e) \<lparr>Rate = 200, WaitTimeout = 500 * millisecond, Burst = 100\<rparr>,
      WithSingleflight (pe_singleflight e)]"

definition NewDefaultClient :: "preset_env \<Rightarrow> (nat \<Rightarrow> reply prog) \<Rightarrow> client prog" where
  "NewDefaultClient e hc = NewClient hc (DefaultConfig e)"

end
