(* ===== verification/Client_Facts.thy ===== *)
theory Client_Facts
  imports Client
begin

section \<open>What a client does with one call, and what it can see of it\<close>

text \<open>
  The frames of theory \<open>Frames\<close> for a client made by \<open>New\<close>: if the parts the user gave it keep a
  relation, its chain does. From this follow the bound on the requests of one \<open>Do\<close> and the
  contents of \<open>Stats\<close>: the policies are given the recorder the client had before it was wrapped
  in its statistics, so nothing but whole requests and the cache is ever counted.
\<close>

subsection \<open>Wiring keeps what the parts keep\<close>

definition client_parts_ok :: "(world \<Rightarrow> world \<Rightarrow> bool) \<Rightarrow> (recorder \<Rightarrow> bool) \<Rightarrow> client \<Rightarrow> bool" where
  "client_parts_ok R ok c \<longleftrightarrow> hooks_ok R (c_hooks c) \<and> ok (c_metrics c) \<and>
     (\<forall>p \<in> set (c_policies c). policy_ok R ok p) \<and> (\<forall>req. steps R (c_hc c req)) \<and>
     (\<forall>l rec w. c_requestLogger c = Some l \<longrightarrow> R w (lg_logger l rec w))"

lemma wire_policy_ok:
  "policy_ok R ok p \<Longrightarrow> ok (c_metrics c) \<Longrightarrow> hooks_ok R (c_hooks c) \<Longrightarrow> policy_ok R ok (wire_policy c p)"
  by (cases "(c, p)" rule: wire_policy.cases)
    (simp_all add: Let_def retry_WithHooks_def retry_WithMetrics_def retry_WithBudget_def
      circuit_WithHooks_def circuit_WithMetrics_def fallback_WithHooks_def fallback_WithMetrics_def
      timeout_WithMetrics_def conc_WithMetrics_def sf_SetMaxBodySize_def split: concurrent_kind.split)

lemma set_cache_stats_ok: "policy_ok R ok (set_cache_stats k a p) = policy_ok R ok p"
  by (cases p) simp_all

lemma finish_client_fields [simp]:
  "c_hc (finish_client c a) = c_hc c" "c_requestLogger (finish_client c a) = c_requestLogger c"
  "c_stats (finish_client c a) = a" "c_metrics (finish_client c a) = StatsRecorder a (c_metrics c)"
  "c_hooks (finish_client c a) = c_hooks c" "c_hcRef (finish_client c a) = c_hcRef c"
  by (simp_all add: finish_client_def Let_def add_policy_def)

lemma finish_client_policies:
  "c_policies (finish_client c a) = map (set_cache_stats (c_cache c) a)
     (map (wire_policy c) (c_policies c) @ (if needs_hooks_policy (c_hooks c) then [PHooks (c_hooks c)] else []))"
  by (simp add: finish_client_def Let_def add_policy_def wire_policy.simps)

lemma finish_client_chain: "c_chain (finish_client c a) = client_chain (finish_client c a)"
  by (cases "c_requestLogger c") (simp_all add: finish_client_def Let_def client_chain_def add_policy_def)

lemma client_chain_build:
  "client_chain c = (case c_requestLogger c of
       Some l \<Rightarrow> log_wrap l (build_chain (c_policies c) (http_do (c_hc c)))
     | None \<Rightarrow> build_chain (c_policies c) (http_do (c_hc c)))"
  by (simp add: client_chain_def wrap_all_hd split: option.split)

context cell_frame begin

lemma steps_log_wrap:
  "(\<And>c req. steps R (next c req)) \<Longrightarrow> (\<And>rec w. R w (lg_logger l rec w)) \<Longrightarrow> steps R (log_wrap l next c req)"
  unfolding log_wrap_def by (intro frame_rules steps_modify)

lemma steps_client_chain:
  assumes "\<And>p. p \<in> set (c_policies c) \<Longrightarrow> policy_ok R ok p \<and> all_parts fits p" and "\<And>req. steps R (c_hc c req)"
    and "\<And>l rec w. c_requestLogger c = Some l \<Longrightarrow> R w (lg_logger l rec w)"
  shows "steps R (client_chain c cx req)"
proof -
  have "steps R (build_chain (c_policies c) (http_do (c_hc c)) cx req)" for cx req
    by (rule steps_chain_parts) (use assms in \<open>simp_all add: http_do_def\<close>)
  then show ?thesis
    by (simp add: client_chain_build steps_log_wrap assms(3) split: option.split)
qed

lemma steps_finished_chain:
  assumes "client_parts_ok R ok c" and "\<And>p. p \<in> set (c_policies (finish_client c a)) \<Longrightarrow> all_parts fits p"
  shows "steps R (c_chain (finish_client c a) cx req)"
  unfolding finish_client_chain
proof (rule steps_client_chain)
  fix p assume p: "p \<in> set (c_policies (finish_client c a))"
  then have "policy_ok R ok p"
    using assms(1) by (auto simp: client_parts_ok_def finish_client_policies set_cache_stats_ok wire_policy_ok)
  with assms(2) [OF p] show "policy_ok R ok p \<and> all_parts fits p" by blast
qed (use assms(1) in \<open>auto simp: client_parts_ok_def\<close>)

lemma steps_client_do:
  assumes "client_parts_ok R ok c" and "\<And>p. p \<in> set (c_policies (finish_client c a)) \<Longrightarrow> all_parts fits p"
    and "ok (StatsRecorder a (c_metrics c))"
  shows "steps R (client_do (finish_client c a) req)"
  unfolding client_do_def finish_client_fields
  by (intro frame_rules steps_finished_chain assms)

end

subsection \<open>One call of Do\<close>

lemma record_metric_stats_cong:
  "w_stats w = w_stats v \<Longrightarrow> w_stats (record_metric r m w) = w_stats (record_metric r m v)"
proof (induction r arbitrary: w v)
  case (StatsRecorder a inner)
  show ?case
    unfolding record_metric.simps by (rule StatsRecorder.IH) (simp add: StatsRecorder.prems)
qed simp_all

lemma client_do_eval:
  assumes "client_do cl (Some i) w = (Returned r, w')"
  obtains cx w1 w2 d meth url where "w_stats w1 = w_stats w" and "c_chain cl cx i w1 = (Returned r, w2)"
    and "w_stats w' = w_stats (record_metric (c_metrics cl) (MRequest meth url (statusFromResp (fst r)) d) w2)"
proof -
  obtain start w1 where n1: "go_now w = (Returned start, w1)" "w_stats w1 = w_stats w"
    by (simp add: go_now_def Let_def)
  from assms n1 obtain w2 where c: "c_chain cl (rq_ctx (w_requests w1 i)) i w1 = (Returned r, w2)"
    by (auto simp: client_do_def bind_def get_def report_def modify_def return_def
        split: result.splits prod.splits)
  obtain now w3 where n3: "go_now w2 = (Returned now, w3)" "w_stats w3 = w_stats w2"
    by (simp add: go_now_def Let_def)
  let ?m = "MRequest (rq_method (w_requests w3 i)) (rq_url (w_requests w3 i)) (statusFromResp (fst r)) (now - start)"
  have "w' = record_metric (c_metrics cl) ?m w3"
    using assms n1 c n3(1) by (simp add: client_do_def report_def return_def)
  moreover have "w_stats (record_metric (c_metrics cl) ?m w3) = w_stats (record_metric (c_metrics cl) ?m w2)"
    by (rule record_metric_stats_cong) (rule n3(2))
  ultimately show ?thesis using that n1 c by simp
qed

text \<open>A program that can panic: what it does to the statistics whether it returns or not.\<close>

definition blind :: "nat \<Rightarrow> world \<Rightarrow> world \<Rightarrow> bool" where
  "blind a w w' \<longleftrightarrow>
     st_retries (w_stats w' a) = st_retries (w_stats w a) \<and>
     st_fallbacks (w_stats w' a) = st_fallbacks (w_stats w a) \<and>
     st_timeouts (w_stats w' a) = st_timeouts (w_stats w a) \<and>
     st_bulkheadDenied (w_stats w' a) = st_bulkheadDenied (w_stats w a) \<and>
     st_circuitState (w_stats w' a) = st_circuitState (w_stats w a)"

interpretation blind: world_order "blind a" for a
  by unfold_locales (simp_all add: blind_def)

lemma same_core_blind: "same_core a w w' \<Longrightarrow> blind a w w'"
  by (simp add: same_core_def core_counts_def blind_def)

lemma steps_mono: "steps R m \<Longrightarrow> (\<And>w w'. R w w' \<Longrightarrow> Q w w') \<Longrightarrow> steps Q m"
  by (simp add: steps_def)

abbreviation parts_apart :: "nat \<Rightarrow> client \<Rightarrow> bool" where
  "parts_apart a \<equiv> client_parts_ok (same_core a) (\<lambda>r. a \<notin> recorder_stats r)"

lemma record_metric_own:
  "a \<notin> recorder_stats r \<Longrightarrow>
   w_stats (record_metric (StatsRecorder a r) m w) a = stats_record m (w_stats w a)"
  by (simp add: record_metric_stats_other)

lemma report_request_blind:
  assumes "a \<notin> recorder_stats r"
  shows "steps (blind a) (report (StatsRecorder a r) (MRequest meth url st d))"
  unfolding steps_def report_def modify_def blind_def
  using record_metric_own [OF assms, of "MRequest meth url st d"] by (simp add: Let_def)

lemma client_do_blind:
  assumes "parts_apart a c"
  shows "steps (blind a) (client_do (finish_client c a) req)"
proof -
  have chain: "steps (blind a) (c_chain (finish_client c a) cx i)" for cx i
    using core_frame.steps_finished_chain [OF assms all_parts_True] by (rule steps_mono) (rule same_core_blind)
  have now: "steps (blind a) go_now"
    using core_frame.steps_go_now by (rule steps_mono) (rule same_core_blind)
  have "a \<notin> recorder_stats (c_metrics c)" using assms by (simp add: client_parts_ok_def)
  then show ?thesis
    unfolding client_do_def finish_client_fields
    by (intro blind.steps_rules chain now report_request_blind)
qed

fun do_all :: "client \<Rightarrow> nat option list \<Rightarrow> reply list prog" where
  "do_all c [] = return []"
| "do_all c (req # reqs) = bind (client_do c req) (\<lambda>r. bind (do_all c reqs) (\<lambda>rs. return (r # rs)))"

lemma do_all_blind: "parts_apart a c \<Longrightarrow> steps (blind a) (do_all (finish_client c a) reqs)"
  by (induction reqs) (simp_all add: blind.steps_return blind.steps_bind client_do_blind)

definition failed_reply :: "reply \<Rightarrow> bool" where
  "failed_reply r \<longleftrightarrow> statusFromResp (fst r) = 0 \<or> statusFromResp (fst r) \<ge> 500"

lemma client_do_counts:
  assumes apart: "parts_apart a c" and run: "client_do (finish_client c a) (Some i) w = (Returned r, w')"
  shows "st_requests (w_stats w' a) = st_requests (w_stats w a) + 1 \<and>
    st_failed (w_stats w' a) = st_failed (w_stats w a) + (if failed_reply r then 1 else 0)"
proof -
  obtain cx w1 w2 d meth url where e: "w_stats w1 = w_stats w"
    "c_chain (finish_client c a) cx i w1 = (Returned r, w2)"
    "w_stats w' = w_stats (record_metric (c_metrics (finish_client c a)) (MRequest meth url (statusFromResp (fst r)) d) w2)"
    by (rule client_do_eval [OF run])
  have "same_core a w1 w2"
    using core_frame.steps_finished_chain [OF apart all_parts_True] e(2) by (rule stepsD)
  moreover have "a \<notin> recorder_stats (c_metrics c)" using apart by (simp add: client_parts_ok_def)
  then have "w_stats w' a = stats_record (MRequest meth url (statusFromResp (fst r)) d) (w_stats w2 a)"
    using e(3) record_metric_own by (simp del: record_metric.simps stats_record.simps)
  ultimately show ?thesis
    using e(1) by (auto simp: same_core_def core_counts_def failed_reply_def Let_def)
qed

lemma client_do_nil:
  "client_do c None w = (Returned (None, Some (errorf_tw ''ambatukam.Do'' ErrNilRequest)), w)"
  by (simp add: client_do_def return_def)

lemma do_all_counts:
  assumes "parts_apart a c" and "do_all (finish_client c a) reqs w = (Returned rs, w')"
  shows "st_requests (w_stats w' a) = st_requests (w_stats w a) + of_nat (length (filter (\<lambda>q. q \<noteq> None) reqs)) \<and>
    st_failed (w_stats w' a) = st_failed (w_stats w a) +
      of_nat (length (filter (\<lambda>(q, r). q \<noteq> None \<and> failed_reply r) (zip reqs rs)))"
  using assms(2)
proof (induction reqs arbitrary: w rs)
  case (Cons q reqs)
  then obtain r rs' w1 where s: "client_do (finish_client c a) q w = (Returned r, w1)"
    "do_all (finish_client c a) reqs w1 = (Returned rs', w')" "rs = r # rs'"
    by (auto simp: return_def elim!: bind_ReturnedE)
  show ?case
  proof (cases q)
    case None
    with s Cons.IH [OF s(2)] show ?thesis by (simp add: client_do_nil)
  next
    case (Some i)
    with s(1) client_do_counts [OF assms(1), of i w r w1] Cons.IH [OF s(2)] s(3) show ?thesis by simp
  qed
qed (simp add: return_def)

lemma steps_do_all:
  assumes "world_order R" and "\<And>req. steps R (client_do c req)"
  shows "steps R (do_all c reqs)"
  by (induction reqs) (simp_all add: world_order.steps_return [OF assms(1)] world_order.steps_bind [OF assms(1)] assms(2))

subsection \<open>What New leaves in the statistics\<close>

lemma NewClient_eval:
  assumes "NewClient hc opts w = (Returned cl, w')"
  obtains c v where "apply_options opts (initial_client (w_next w) hc) (w\<lparr>w_next := Suc (w_next w)\<rparr>) = (Returned c, v)"
    and "cl = finish_client c (w_next v)" and "w_stats w' (w_next v) = newStatsRecorder (w_now w')"
  using assms
  by (auto simp: NewClient_def new_address_def new_stats_def go_now_def modify_def return_def bind_def Let_def
      split: result.splits prod.splits)

subsection \<open>How many requests one Do sends\<close>

definition client_sends_ok :: "client \<Rightarrow> bool" where
  "client_sends_ok c \<longleftrightarrow> (\<forall>p \<in> set (c_policies c). sends_ok p) \<and> (\<forall>req. sends_le 1 (c_hc c req)) \<and>
     (\<forall>l rec w. c_requestLogger c = Some l \<longrightarrow> sent (lg_logger l rec w) = sent w)"

lemma sends_log_wrap:
  assumes "\<And>c req. sends_le n (next c req)" and "\<And>rec w. sent (lg_logger l rec w) = sent w"
  shows "sends_le n (log_wrap l next c req)"
proof -
  have logged: "sends_nothing (modify (\<lambda>w. lg_logger l (f w) w))" for f
    by (rule quiet.steps_modify) (simp add: assms(2))
  have "sends_le n (bind (next c req) (\<lambda>r. bind go_now (\<lambda>now.
      bind (modify (\<lambda>w. lg_logger l (finished_record req (now - start) r w) w)) (\<lambda>_. return r))))" for start
    by (intro sends_then_quiet assms(1) quiet.steps_bind go_now_quiet logged quiet.steps_return)
  then show ?thesis
    unfolding log_wrap_def by (intro sends_bind_quiet [OF go_now_quiet] sends_bind_quiet [OF logged])
qed

lemma client_chain_sends:
  assumes "client_sends_ok c"
  shows "sends_le (prod_list (map amplification (c_policies c))) (client_chain c cx req)"
proof -
  have "sends_le (1 * prod_list (map amplification (c_policies c))) (build_chain (c_policies c) (http_do (c_hc c)) cx req)"
    for cx req
    by (rule sends_build_chain) (use assms in \<open>simp_all add: client_sends_ok_def http_do_def\<close>)
  then show ?thesis
    using assms by (simp add: client_chain_build sends_log_wrap client_sends_ok_def split: option.split)
qed

lemma client_do_sends:
  assumes "client_sends_ok c" and "c_chain c = client_chain c"
  shows "sends_le (prod_list (map amplification (c_policies c))) (client_do c req)"
proof -
  have "sends_le (prod_list (map amplification (c_policies c)))
      (bind (c_chain c cx i) (\<lambda>r. bind go_now (\<lambda>now. bind (get (\<lambda>w. w_requests w i)) (\<lambda>rq.
        bind (report (c_metrics c) (MRequest (rq_method rq) (rq_url rq) (statusFromResp (fst r)) (now - start))) (\<lambda>_.
        return r)))))" for cx i start
    unfolding assms(2)
    by (intro sends_then_quiet client_chain_sends assms(1) quiet_frame.frame_rules TrueI)
  then show ?thesis
    unfolding client_do_def
    by (intro sends_option sends_zero [OF quiet.steps_return] sends_bind_quiet [OF go_now_quiet]
        sends_bind_quiet [OF quiet.steps_get])
qed

subsection \<open>The default client\<close>

text \<open>The client that \<open>NewDefaultClient\<close> makes, with its policies in order.\<close>

lemma DefaultConfig_policies:
  obtains v cb where "apply_options (DefaultConfig e) (initial_client a hc) w
      = (Returned ((initial_client a hc)\<lparr>c_policies :=
          [PRetry (NewRetry (preset_retry 3 (100 * millisecond) (5 * second))),
           PCircuit cb, PTimeout (NewTimeout (30 * second)),
           PConcurrent (NewBulkhead (pe_ncpu e) (pe_bulkhead e)
             \<lparr>MaxConcurrent = of_nat (pe_ncpu e * 4), MaxQueue = 0, QueueTimeout = 0, Priority = False\<rparr>)]\<rparr>), v)"
    and "cp_hooks cb = no_hooks" and "cp_metrics cb = NilRecorder"
  by (simp add: DefaultConfig_def WithRetry_def WithCircuitBreaker_def WithTimeout_def WithBulkhead_def
      NewCircuitBreaker_def new_address_def modify_def return_def bind_def add_policy_def initial_client_def
      retry_WithLogger_def circuit_WithLogger_def NewRetry_def Let_def)

lemma hooks_ok_none [simp]: "hooks_ok R no_hooks"
  by (simp add: hooks_ok_def no_hooks_def)

lemma attempts_preset: "0 \<le> n \<Longrightarrow> n < max_int64 \<Longrightarrow>
   attempts_of (p\<lparr>rp_cfg := applyRetryDefaults (preset_retry n i m)\<rparr>) = n + 1"
  by (simp add: attempts_of_def applyRetryDefaults_def preset_retry_def Let_def wrap64_id)

lemma default_amplification:
  assumes "apply_options (DefaultConfig e) (initial_client a hc) w = (Returned c, v)"
  shows "prod_list (map amplification (c_policies (finish_client c b))) = 4"
proof -
  obtain cb where "c = (initial_client a hc)\<lparr>c_policies :=
          [PRetry (NewRetry (preset_retry 3 (100 * millisecond) (5 * second))),
           PCircuit cb, PTimeout (NewTimeout (30 * second)),
           PConcurrent (NewBulkhead (pe_ncpu e) (pe_bulkhead e)
             \<lparr>MaxConcurrent = of_nat (pe_ncpu e * 4), MaxQueue = 0, QueueTimeout = 0, Priority = False\<rparr>)]\<rparr>"
    by (rule DefaultConfig_policies [of e a hc w]) (use assms in simp)
  then show ?thesis
    by (simp add: finish_client_policies initial_client_def needs_hooks_policy_def no_hooks_def NewRetry_def
        preset_retry_def applyRetryDefaults_def attempts_of_def wrap64_id retry_WithHooks_def retry_WithMetrics_def Let_def)
qed

subsection \<open>An example\<close>

definition example_client :: "(nat \<Rightarrow> reply prog) \<Rightarrow> client" where
  "example_client hc = (initial_client 1 hc)\<lparr>c_policies := [PRetry (NewRetry DefaultRetryConfig)]\<rparr>"

lemma example_apply:
  "apply_options [WithRetry DefaultRetryConfig] (initial_client (w_next still_world) hc)
     (still_world\<lparr>w_next := Suc (w_next still_world)\<rparr>) = (Returned (example_client hc), still_world\<lparr>w_next := 2\<rparr>)"
  by (simp add: WithRetry_def add_policy_def example_client_def initial_client_def retry_WithLogger_def return_def
      NewRetry_def still_world_def Let_def bind_def)

lemma example_NewClient:
  obtains cl w1 where "NewClient hc [WithRetry DefaultRetryConfig] still_world = (Returned cl, w1)"
    and "cl = finish_client (example_client hc) 2"
  using example_apply [of hc]
  by (simp add: NewClient_def new_address_def new_stats_def go_now_def modify_def return_def bind_def Let_def still_world_def)

lemma example_client_finished:
  "c_policies (finish_client (example_client hc) a) = [wire_policy (example_client hc) (PRetry (NewRetry DefaultRetryConfig))]"
  "c_hc (example_client hc) = hc" "c_requestLogger (example_client hc) = None"
  "sends_ok (wire_policy (example_client hc) (PRetry (NewRetry DefaultRetryConfig)))"
  by (simp_all add: finish_client_policies example_client_def initial_client_def needs_hooks_policy_def no_hooks_def
      retry_WithHooks_def retry_WithMetrics_def hooks_ok_def Let_def)

lemma example_attempts: "amplification (wire_policy (example_client hc) (PRetry (NewRetry DefaultRetryConfig))) = 4"
  using example_retry(5)
  by (simp add: example_client_def initial_client_def retry_WithHooks_def retry_WithMetrics_def attempts_of_def Let_def)

lemma example_parts_apart:
  assumes "apply_options [WithRetry DefaultRetryConfig] (initial_client (w_next still_world) (\<lambda>_. return r))
     (still_world\<lparr>w_next := Suc (w_next still_world)\<rparr>) = (Returned c, v)"
  shows "parts_apart (w_next v) c"
proof -
  have "c = example_client (\<lambda>_. return r)" using assms example_apply [of "\<lambda>_. return r"] by simp
  then show ?thesis
    by (simp add: client_parts_ok_def example_client_def initial_client_def example_retry core_frame.steps_return
        NewRetry_def Let_def)
qed

lemma stats_of_returns:
  obtains st w' where "stats_of c w = (Returned st, w')"
  by (simp add: stats_of_def go_now_def bind_def get_def case_prod_beta Let_def)

lemma stats_of_fields:
  assumes "stats_of c w = (Returned st, w')"
  shows "RetriesTotal st = st_retries (w_stats w (c_stats c))" "FallbacksTotal st = st_fallbacks (w_stats w (c_stats c))"
    "TimeoutsTotal st = st_timeouts (w_stats w (c_stats c))" "BulkheadDenied st = st_bulkheadDenied (w_stats w (c_stats c))"
    "CircuitState st = st_circuitState (w_stats w (c_stats c))" "RequestsTotal st = st_requests (w_stats w (c_stats c))"
    "RequestsFailed st = st_failed (w_stats w (c_stats c))"
  using assms
  by (auto simp: stats_of_def go_now_def bind_def get_def stats_snapshot_def case_prod_beta Let_def)

end
