(* ===== verification/Cells.thy ===== *)
theory Cells
  imports Client_Facts
begin

section \<open>The cells of a client stay well-formed\<close>

text \<open>
  The fields of a breaker, a cache, an adaptive timeout and a retry budget lie in cells of the world
  that policies point to. A typing says which addresses hold what, a breaker's with its
  configuration; a world is well-formed for a typing when every cell satisfies the invariant of its
  component. The policies of the repository keep this (an instance of the locale \<open>cell_frame\<close> of theory
  \<open>Frames\<close>), and the options that make cells extend the typing, so that the cells of a client made by
  \<open>New\<close> are well-formed after any sequence of calls of \<open>Do\<close>, panics included.
\<close>

subsection \<open>Typings\<close>

record typing =
  ty_breakers :: "nat \<rightharpoonup> circuit_config"
  ty_caches :: "nat set"
  ty_adaptives :: "nat set"
  ty_budgets :: "nat set"

text \<open>The share of a budget is stated for windows of fewer than \<open>2 ^ 53\<close> questions, as floats count.\<close>

definition budget_typed :: "float_env \<Rightarrow> retry_budget \<Rightarrow> bool" where
  "budget_typed fe rb \<longleftrightarrow> budget_ok fe rb \<and> 0 \<le> rb_retries rb \<and> rb_retries rb \<le> rb_total rb \<and>
     (rb_total rb < 9007199254740992 \<longrightarrow> budget_inv rb)"

definition cells_ok :: "typing \<Rightarrow> world \<Rightarrow> bool" where
  "cells_ok T w \<longleftrightarrow>
     (\<forall>a cfg. ty_breakers T a = Some cfg \<longrightarrow> circuit_config_ok cfg \<and> circuit_inv cfg (w_circuits w a)) \<and>
     (\<forall>a \<in> ty_caches T. cache_ok (w_caches w a)) \<and>
     (\<forall>a \<in> ty_adaptives T. adaptive_ok (w_adaptives w a)) \<and>
     (\<forall>a \<in> ty_budgets T. budget_typed (w_float w) (w_budgets w a))"

definition keeps_cells :: "typing \<Rightarrow> world \<Rightarrow> world \<Rightarrow> bool" where
  "keeps_cells T w w' \<longleftrightarrow> w_float w' = w_float w \<and> (float_ok (w_float w) \<longrightarrow> cells_ok T w \<longrightarrow> cells_ok T w')"

fun fits_cells :: "typing \<Rightarrow> policy \<Rightarrow> bool" where
  "fits_cells T (PCircuit p) \<longleftrightarrow> ty_breakers T (cp_addr p) = Some (cp_cfg p)"
| "fits_cells T (PCache p) \<longleftrightarrow> ch_addr p \<in> ty_caches T"
| "fits_cells T (PAdaptive p) \<longleftrightarrow> ap_addr p \<in> ty_adaptives T"
| "fits_cells T (PRetry p) \<longleftrightarrow> (\<forall>a. rp_budget p = Some a \<longrightarrow> a \<in> ty_budgets T)"
| "fits_cells T p \<longleftrightarrow> True"

fun cell_ok :: "world \<Rightarrow> policy \<Rightarrow> bool" where
  "cell_ok w (PCircuit p) \<longleftrightarrow> circuit_config_ok (cp_cfg p) \<and> circuit_inv (cp_cfg p) (w_circuits w (cp_addr p))"
| "cell_ok w (PCache p) \<longleftrightarrow> cache_ok (w_caches w (ch_addr p))"
| "cell_ok w (PAdaptive p) \<longleftrightarrow> adaptive_ok (w_adaptives w (ap_addr p))"
| "cell_ok w (PRetry p) \<longleftrightarrow> (\<forall>a. rp_budget p = Some a \<longrightarrow> budget_typed (w_float w) (w_budgets w a))"
| "cell_ok w p \<longleftrightarrow> True"

lemma all_parts_mono: "all_parts P p \<Longrightarrow> (\<And>p. P p \<Longrightarrow> Q p) \<Longrightarrow> all_parts Q p"
  by (induction p) auto

lemma cells_ok_parts: "cells_ok T w \<Longrightarrow> all_parts (fits_cells T) p \<Longrightarrow> all_parts (cell_ok w) p"
proof (erule all_parts_mono)
  fix p assume "cells_ok T w" and "fits_cells T p"
  then show "cell_ok w p" by (cases p) (auto simp: cells_ok_def)
qed

subsection \<open>The operations keep the cells\<close>

lemma budget_typed_allow:
  assumes "float_ok fe" and typed: "budget_typed fe rb"
  shows "budget_typed fe (snd (budget_allow fe now rb))"
proof -
  obtain r where r: "budget_typed fe r" and eq: "budget_allow fe now rb = budget_allow fe now r"
    and fresh: "now - rb_windowStart r > rb_window r \<Longrightarrow> rb_total r = 0 \<and> rb_retries r = 0"
  proof (cases "now - rb_windowStart rb > rb_window rb")
    case True
    then show ?thesis
      using typed by (intro that [of "rb\<lparr>rb_total := 0, rb_retries := 0, rb_windowStart := now\<rparr>"])
        (simp_all add: budget_typed_def budget_ok_def budget_inv_def budget_allow_def Let_def)
  qed (use typed in simp)
  have r': "0 \<le> rb_retries r" "rb_retries r \<le> rb_total r" "rb_total r < 9007199254740992 \<longrightarrow> budget_inv r"
    "budget_ok fe r"
    using r by (simp_all add: budget_typed_def)
  have counts: "rb_total (snd (budget_allow fe now r)) = rb_total r + 1"
    "rb_retries (snd (budget_allow fe now r)) \<in> {rb_retries r, rb_retries r + 1}"
    using fresh by (auto simp: budget_allow_def Let_def)
  have "budget_typed fe (snd (budget_allow fe now r))"
    using budget_allow_inv [OF assms(1) r'(4), of now] r' counts
    by (auto simp: budget_typed_def budget_ok_def budget_allow_keeps)
  then show ?thesis by (simp add: eq)
qed

lemma circuit_verdict_inv:
  assumes "circuit_config_ok (cp_cfg p)" and "circuit_inv (cp_cfg p) cb"
  shows "circuit_inv (cp_cfg p) (snd (circuit_verdict p now gen r cb))"
  unfolding circuit_verdict_def
  using on_success_inv [OF assms] on_failure_inv [OF assms(2)] by (metis prod.collapse)

lemma cache_ok_Nil: "cache_ok []"
  by (simp add: cache_ok_def)

lemma cells_ok_circuit:
  "cells_ok T w \<Longrightarrow> (\<And>cfg. ty_breakers T a = Some cfg \<Longrightarrow> circuit_inv cfg cb) \<Longrightarrow> cells_ok T (set_circuit a cb w)"
  by (auto simp: cells_ok_def set_circuit_def)

interpretation cells: cell_frame "keeps_cells T" "\<lambda>_. True" "fits_cells T" for T
proof unfold_locales
  fix p now1 now2 w assume p: "fits_cells T (PCircuit p)"
  show "keeps_cells T w (set_circuit (cp_addr p) (snd (snd (allow_request (cp_cfg p) now1 now2 (w_circuits w (cp_addr p))))) w)"
    unfolding keeps_cells_def
  proof (intro conjI impI)
    assume ok: "cells_ok T w"
    then have "circuit_config_ok (cp_cfg p)" "circuit_inv (cp_cfg p) (w_circuits w (cp_addr p))"
      using p by (auto simp: cells_ok_def)
    from allow_request_inv [OF this] ok p
    show "cells_ok T (set_circuit (cp_addr p) (snd (snd (allow_request (cp_cfg p) now1 now2 (w_circuits w (cp_addr p))))) w)"
      by (intro cells_ok_circuit) (auto, metis prod.collapse)
  qed (simp add: set_circuit_def)
next
  fix p now gen rep w assume p: "fits_cells T (PCircuit p)"
  show "keeps_cells T w (set_circuit (cp_addr p) (snd (circuit_verdict p now gen rep (w_circuits w (cp_addr p)))) w)"
    unfolding keeps_cells_def
  proof (intro conjI impI)
    assume ok: "cells_ok T w"
    then show "cells_ok T (set_circuit (cp_addr p) (snd (circuit_verdict p now gen rep (w_circuits w (cp_addr p)))) w)"
      using p by (intro cells_ok_circuit) (auto simp: cells_ok_def intro: circuit_verdict_inv)
  qed (simp add: set_circuit_def)
qed (auto simp: keeps_cells_def cells_ok_def budget_typed_allow record_sample_ok cache_store_ok)

subsection \<open>The options make well-formed cells\<close>

definition no_cells :: typing where
  "no_cells = \<lparr>ty_breakers = Map.empty, ty_caches = {}, ty_adaptives = {}, ty_budgets = {}\<rparr>"

definition ty_le :: "typing \<Rightarrow> typing \<Rightarrow> bool" where
  "ty_le T T' \<longleftrightarrow> ty_breakers T \<subseteq>\<^sub>m ty_breakers T' \<and> ty_caches T \<subseteq> ty_caches T' \<and>
     ty_adaptives T \<subseteq> ty_adaptives T' \<and> ty_budgets T \<subseteq> ty_budgets T'"

lemma fits_cells_mono: "ty_le T T' \<Longrightarrow> all_parts (fits_cells T) p \<Longrightarrow> all_parts (fits_cells T') p"
proof (erule all_parts_mono)
  fix p assume "ty_le T T'" and "fits_cells T p"
  then show "fits_cells T' p" by (cases p) (auto simp: ty_le_def map_le_def dom_def)
qed

lemma no_cells_le [simp]: "ty_le no_cells T"
  by (simp add: ty_le_def no_cells_def)

definition ty_below :: "typing \<Rightarrow> nat \<Rightarrow> bool" where
  "ty_below T n \<longleftrightarrow> dom (ty_breakers T) \<union> ty_caches T \<union> ty_adaptives T \<union> ty_budgets T \<subseteq> {..<n}"

definition typed_client :: "client \<Rightarrow> world \<Rightarrow> typing \<Rightarrow> bool" where
  "typed_client c w T \<longleftrightarrow> cells_ok T w \<and> ty_below T (w_next w) \<and>
     (\<forall>p \<in> set (c_policies c). all_parts (fits_cells T) p) \<and>
     (\<forall>a. c_retryBudget c = Some a \<longrightarrow> a \<in> ty_budgets T)"

text \<open>The options of the repository; what the user brings along has no cells of its own.\<close>

inductive cell_option :: "float_env \<Rightarrow> client_option \<Rightarrow> bool" for fe where
  "cell_option fe (WithCircuitBreaker cfg)"
| "cell_option fe (WithCache ccfg)"
| "cell_option fe (WithAdaptiveTimeout acfg)"
| "\<forall>now. budget_ok fe (NewRetryBudget fe now b d) \<Longrightarrow> cell_option fe (WithRetryBudget b d)"
| "cell_option fe (WithRetry rcfg)"
| "cell_option fe (WithTimeout d)"
| "cell_option fe (WithTimeoutMap rules)"
| "cell_option fe (WithBulkhead ncpu bv bcfg)"
| "cell_option fe (WithRateLimit bv lcfg)"
| "cell_option fe (WithSingleflight bv)"
| "cell_option fe (WithFallback h)"
| "cell_option fe (WithInterceptor i)"
| "cell_option fe (WithRequestID header)"
| "cell_option fe (WithRequestIDPolicy rid)"
| "all_parts (fits_cells no_cells) p \<Longrightarrow> cell_option fe (WithPolicy p)"
| "cell_option fe (WithHooks hooks)"
| "cell_option fe (WithMetrics m)"
| "cell_option fe (WithHTTPClient hc)"
| "cell_option fe (WithLogger l)"
| "cell_option fe (WithCustomLogger cl)"
| "cell_option fe WithDebug"
| "cell_option fe (WithMaxBodySize n)"
| "cell_option fe (WithRequestLog dflt rlcfg)"

lemmas option_defs =
  WithRetry_def WithTimeout_def WithTimeoutMap_def WithBulkhead_def WithRateLimit_def WithSingleflight_def
  WithFallback_def WithInterceptor_def WithRequestID_def WithRequestIDPolicy_def WithPolicy_def WithHooks_def
  WithMetrics_def WithHTTPClient_def WithLogger_def WithCustomLogger_def WithDebug_def WithMaxBodySize_def
  WithRequestLog_def

text \<open>An option that adds policies without cells, and one that makes a cell at a new address.\<close>

lemma typed_client_pure:
  "typed_client c w T \<Longrightarrow> set (c_policies c') \<subseteq> set (c_policies c) \<union> {p. all_parts (fits_cells no_cells) p} \<Longrightarrow>
   c_retryBudget c' = c_retryBudget c \<Longrightarrow> typed_client c' w T"
  using fits_cells_mono [OF no_cells_le] by (auto simp: typed_client_def)

lemma typed_client_new:
  assumes "typed_client c w T" and "ty_le T T'" and "cells_ok T' w'" and "ty_below T' (w_next w')"
    and "set (c_policies c') \<subseteq> set (c_policies c) \<union> {p. all_parts (fits_cells T') p}"
    and "\<And>a. c_retryBudget c' = Some a \<Longrightarrow> c_retryBudget c' = c_retryBudget c \<or> a \<in> ty_budgets T'"
  shows "typed_client c' w' T'"
  using assms fits_cells_mono [OF assms(2)] by (fastforce simp: typed_client_def ty_le_def)

definition adds_policies :: "client_option \<Rightarrow> bool" where
  "adds_policies opt \<longleftrightarrow> (\<forall>c w. \<exists>c1. opt c w = (Returned c1, w) \<and> c_retryBudget c1 = c_retryBudget c \<and>
     set (c_policies c1) \<subseteq> set (c_policies c) \<union> {p. all_parts (fits_cells no_cells) p})"

lemma cell_option_cases:
  assumes "cell_option fe opt"
  obtains (breaker) cfg where "opt = WithCircuitBreaker cfg"
    | (cache) ccfg where "opt = WithCache ccfg"
    | (adaptive) acfg where "opt = WithAdaptiveTimeout acfg"
    | (budget) b d where "opt = WithRetryBudget b d" and "\<forall>now. budget_ok fe (NewRetryBudget fe now b d)"
    | (other) "adds_policies opt"
  using assms
  by (cases rule: cell_option.cases)
    (auto simp: adds_policies_def option_defs return_def add_policy_def retry_WithLogger_def NewRetry_def Let_def)

lemma cell_option_typed:
  assumes "cell_option (w_float w) opt" and run: "opt c w = (Returned c', w')" and t: "typed_client c w T"
  shows "w_float w' = w_float w \<and> (\<exists>T'. typed_client c' w' T')"
  using assms(1)
proof (cases rule: cell_option_cases)
  case (breaker cfg)
  let ?T = "T\<lparr>ty_breakers := (ty_breakers T)(w_next w \<mapsto> circuit_defaults cfg)\<rparr>"
  have "typed_client c' w' ?T"
    using t run unfolding breaker
    by (intro typed_client_new [OF t])
      (auto simp: WithCircuitBreaker_def NewCircuitBreaker_def new_address_def bind_def modify_def return_def
        set_circuit_def add_policy_def circuit_WithLogger_def typed_client_def cells_ok_def ty_below_def ty_le_def
        map_le_def circuit_defaults_ok circuit_inv_new dom_def subset_iff less_Suc_eq split: if_splits)
  then show ?thesis
    using run unfolding breaker
    by (auto simp: WithCircuitBreaker_def NewCircuitBreaker_def new_address_def bind_def modify_def return_def set_circuit_def)
next
  case (cache cfg)
  let ?T = "T\<lparr>ty_caches := insert (w_next w) (ty_caches T)\<rparr>"
  have "typed_client c' w' ?T"
    using t run unfolding cache
    by (intro typed_client_new [OF t])
      (auto simp: WithCache_def NewCache_def new_address_def bind_def modify_def return_def
        add_policy_def typed_client_def cells_ok_def ty_below_def ty_le_def cache_ok_Nil subset_iff less_Suc_eq)
  then show ?thesis
    using run unfolding cache by (auto simp: WithCache_def NewCache_def new_address_def bind_def modify_def return_def)
next
  case (adaptive cfg)
  let ?T = "T\<lparr>ty_adaptives := insert (w_next w) (ty_adaptives T)\<rparr>"
  have "typed_client c' w' ?T"
    using t run unfolding adaptive
    by (intro typed_client_new [OF t])
      (auto simp: WithAdaptiveTimeout_def NewAdaptive_def new_address_def bind_def modify_def return_def
        add_policy_def typed_client_def cells_ok_def ty_below_def ty_le_def NewAdaptiveTimeout_ok subset_iff less_Suc_eq)
  then show ?thesis
    using run unfolding adaptive
    by (auto simp: WithAdaptiveTimeout_def NewAdaptive_def new_address_def bind_def modify_def return_def)
next
  case (budget b d)
  let ?T = "T\<lparr>ty_budgets := insert (w_next w) (ty_budgets T)\<rparr>"
  have new: "budget_typed (w_float w) (NewRetryBudget (w_float w) now b d)" for now
    using budget(2) NewRetryBudget_inv [of "w_float w" now b d]
    by (auto simp: budget_typed_def) (auto simp: NewRetryBudget_def Let_def)
  have "typed_client c' w' ?T"
    using t run unfolding budget(1)
    by (intro typed_client_new [OF t])
      (auto simp: WithRetryBudget_def NewBudget_def new_address_def go_now_def bind_def modify_def return_def Let_def
        typed_client_def cells_ok_def ty_below_def ty_le_def new subset_iff less_Suc_eq)
  then show ?thesis
    using run unfolding budget(1)
    by (auto simp: WithRetryBudget_def NewBudget_def new_address_def go_now_def bind_def modify_def return_def Let_def)
next
  case other
  then obtain c1 where "opt c w = (Returned c1, w)" "c_retryBudget c1 = c_retryBudget c"
      "set (c_policies c1) \<subseteq> set (c_policies c) \<union> {p. all_parts (fits_cells no_cells) p}"
    unfolding adds_policies_def by metis
  with run typed_client_pure [OF t] show ?thesis by auto
qed

lemma cell_options_typed:
  assumes "\<forall>opt \<in> set opts. cell_option (w_float w) opt" and "apply_options opts c w = (Returned c', w')"
    and "typed_client c w T"
  shows "w_float w' = w_float w \<and> (\<exists>T'. typed_client c' w' T')"
  using assms
proof (induction opts arbitrary: c w T)
  case (Cons opt opts)
  obtain c1 w1 where o: "opt c w = (Returned c1, w1)" "apply_options opts c1 w1 = (Returned c', w')"
    using Cons.prems(2) by (auto elim: bind_ReturnedE)
  then obtain T1 where "w_float w1 = w_float w" and "typed_client c1 w1 T1"
    using cell_option_typed [of w opt c c1 w1 T] Cons.prems(1,3) by auto
  with Cons.IH [OF _ o(2)] Cons.prems(1) show ?case by auto
qed (auto simp: return_def)

lemma initial_typed: "typed_client (initial_client a hc) w no_cells"
  by (simp add: typed_client_def initial_client_def no_cells_def cells_ok_def ty_below_def)

text \<open>Wiring leaves a policy its cells, but for the client's budget.\<close>

lemma wire_fits:
  assumes "\<forall>a. c_retryBudget c = Some a \<longrightarrow> a \<in> ty_budgets T"
  shows "all_parts (fits_cells T) p \<Longrightarrow> all_parts (fits_cells T) (wire_policy c p)"
  using assms
  by (cases "(c, p)" rule: wire_policy.cases)
    (simp_all add: Let_def retry_WithHooks_def retry_WithMetrics_def retry_WithBudget_def
      circuit_WithHooks_def circuit_WithMetrics_def)

lemma set_cache_stats_fits: "all_parts (fits_cells T) (set_cache_stats k a p) = all_parts (fits_cells T) p"
  by (cases p) simp_all

lemma finish_fits: "typed_client c w T \<Longrightarrow> p \<in> set (c_policies (finish_client c a)) \<Longrightarrow> all_parts (fits_cells T) p"
  by (auto simp: typed_client_def finish_client_policies set_cache_stats_fits wire_fits)

lemma new_client_typed:
  assumes "\<forall>opt \<in> set opts. cell_option (w_float w) opt" and "NewClient hc opts w = (Returned cl, w1)"
  obtains c v a T where "apply_options opts (initial_client (w_next w) hc) (w\<lparr>w_next := Suc (w_next w)\<rparr>) = (Returned c, v)"
    and "cl = finish_client c a" and "cells_ok T w1" and "w_float w1 = w_float w"
    and "\<forall>p \<in> set (c_policies cl). all_parts (fits_cells T) p"
proof -
  let ?w = "w\<lparr>w_next := Suc (w_next w)\<rparr>"
  obtain c v where a: "apply_options opts (initial_client (w_next w) hc) ?w = (Returned c, v)"
    and cl: "cl = finish_client c (w_next v)"
    and w1: "w_circuits w1 = w_circuits v" "w_caches w1 = w_caches v" "w_adaptives w1 = w_adaptives v"
      "w_budgets w1 = w_budgets v" "w_float w1 = w_float v"
    using assms(2)
    by (auto simp: NewClient_def new_address_def new_stats_def go_now_def modify_def return_def bind_def Let_def
        split: result.splits prod.splits)
  have "\<forall>opt \<in> set opts. cell_option (w_float ?w) opt" using assms(1) by simp
  from cell_options_typed [OF this a initial_typed] obtain T where T: "w_float v = w_float w" "typed_client c v T"
    by auto
  then have "cells_ok T w1" using w1 by (simp add: typed_client_def cells_ok_def)
  with that [OF a cl this] w1(5) T finish_fits [OF T(2)] cl show ?thesis by simp
qed

lemma client_cells:
  assumes "float_ok (w_float w)" and "\<forall>opt \<in> set opts. cell_option (w_float w) opt"
    and "NewClient hc opts w = (Returned cl, w1)"
    and "\<And>T c v. apply_options opts (initial_client (w_next w) hc) (w\<lparr>w_next := Suc (w_next w)\<rparr>) = (Returned c, v) \<Longrightarrow>
      client_parts_ok (keeps_cells T) (\<lambda>_. True) c"
    and "do_all cl reqs w1 = (r, w2)" and "p \<in> set (c_policies cl)"
  shows "all_parts (cell_ok w2) p"
proof -
  obtain c v a T where a: "apply_options opts (initial_client (w_next w) hc) (w\<lparr>w_next := Suc (w_next w)\<rparr>) = (Returned c, v)"
    and cl: "cl = finish_client c a" and T: "cells_ok T w1" "w_float w1 = w_float w"
    and fits: "\<forall>p \<in> set (c_policies cl). all_parts (fits_cells T) p"
    by (rule new_client_typed [OF assms(2,3)])
  have "steps (keeps_cells T) (client_do cl req)" for req
    unfolding cl by (rule cells.steps_client_do [OF assms(4) [OF a] fits [unfolded cl, rule_format] TrueI])
  from stepsD [OF steps_do_all [OF cells.world_order_axioms this] assms(5)] have "cells_ok T w2"
    using T assms(1) by (simp add: keeps_cells_def)
  then show ?thesis using fits assms(6) by (blast intro: cells_ok_parts)
qed

subsection \<open>An example\<close>

definition example_options :: "client_option list" where
  "example_options = [WithRetry DefaultRetryConfig, WithCircuitBreaker DefaultCircuitConfig,
     WithCache \<lparr>TTL = 10, MaxEntries = 1, Methods = []\<rparr>, WithRetryBudget (1 / 5) 0]"

lemma example_cell_options: "\<forall>opt \<in> set example_options. cell_option (w_float still_world) opt"
  by (auto simp: example_options_def still_world_def exact_float_def NewRetryBudget_def budget_ok_def Let_def
      intro: cell_option.intros)

lemma example_new_cells:
  obtains cl w1 where "NewClient (\<lambda>_. return r) example_options still_world = (Returned cl, w1)" and "length (c_policies cl) = 3"
proof -
  obtain c v where a: "apply_options example_options (initial_client (w_next still_world) (\<lambda>_. return r))
      (still_world\<lparr>w_next := Suc (w_next still_world)\<rparr>) = (Returned c, v)"
    and "length (c_policies c) = 3" "c_hooks c = no_hooks"
    by (simp add: example_options_def WithRetry_def WithCircuitBreaker_def WithCache_def WithRetryBudget_def
        NewCircuitBreaker_def NewCache_def NewBudget_def new_address_def go_now_def bind_def modify_def return_def
        Let_def add_policy_def initial_client_def)
  then have "length (c_policies (finish_client c b)) = 3" for b
    by (simp add: finish_client_policies needs_hooks_policy_def no_hooks_def)
  moreover obtain w1 where "NewClient (\<lambda>_. return r) example_options still_world = (Returned (finish_client c (w_next v)), w1)"
    using a by (simp add: NewClient_def new_address_def new_stats_def go_now_def modify_def return_def bind_def Let_def)
  ultimately show ?thesis using that by blast
qed

lemma example_keeps_cells:
  assumes "apply_options example_options (initial_client (w_next still_world) (\<lambda>_. return r))
     (still_world\<lparr>w_next := Suc (w_next still_world)\<rparr>) = (Returned c, v)"
  shows "client_parts_ok (keeps_cells T) (\<lambda>_. True) c"
  using assms
  by (auto simp: example_options_def WithRetry_def WithCircuitBreaker_def WithCache_def WithRetryBudget_def
      NewCircuitBreaker_def NewCache_def NewBudget_def new_address_def go_now_def bind_def modify_def
      Let_def add_policy_def initial_client_def client_parts_ok_def cells.steps_return NewRetry_def
      retry_WithLogger_def circuit_WithLogger_def return_def)

end
