(* ===== verification/Circuit_Conc.thy ===== *)
theory Circuit_Conc
  imports Circuit
begin

section \<open>The circuit breaker under concurrent requests\<close>

text \<open>
  \<open>CircuitBreakerPolicy.Execute\<close> run by any number of goroutines. A goroutine is at one of four
  points: outside, between the read lock and the write lock of \<open>allowRequest\<close> (having seen the
  breaker open with its duration over, or half-open with a permit), or running \<open>next\<close> with
  the generation it was admitted at. A step is one critical section of one goroutine, with the
  clock as it stands, or the clock moving on; its label says who was admitted or denied and
  which transitions were reported. \<open>next\<close> may return (the verdict of \<open>shouldTrip\<close> is in the
  label) or, when \<open>panics\<close> is set, panic: \<open>Execute\<close> has no deferred call, so a panic skips both
  \<open>onFailure\<close> and \<open>onSuccess\<close>.
\<close>

datatype cb_pc = Outside | WantOpen | WantHalf u64 | Running u64

record cb_sys =
  sys_cb :: circuit
  sys_now :: instant
  sys_pc :: "nat \<Rightarrow> cb_pc"

datatype cb_label =
    Clock duration
  | Defers nat
  | Admits nat "transition list"
  | Denies nat "transition list"
  | Settles nat bool "transition list"
  | Panics nat

fun label_transitions :: "cb_label \<Rightarrow> transition list" where
  "label_transitions (Admits t ts) = ts"
| "label_transitions (Denies t ts) = ts"
| "label_transitions (Settles t b ts) = ts"
| "label_transitions l = []"

fun is_admit :: "cb_label \<Rightarrow> bool" where
  "is_admit (Admits t ts) = True"
| "is_admit l = False"

inductive cb_step :: "circuit_config \<Rightarrow> bool \<Rightarrow> cb_sys \<Rightarrow> cb_label \<Rightarrow> cb_sys \<Rightarrow> bool"
  for cfg :: circuit_config and panics :: bool
where
  cb_clock: "0 \<le> d \<Longrightarrow> cb_step cfg panics s (Clock d) (s\<lparr>sys_now := sys_now s + d\<rparr>)"
| cb_enter_admit:
    "sys_pc s t = Outside \<Longrightarrow> cb_read_section cfg (sys_now s) (sys_cb s) = Decided True g \<Longrightarrow>
     cb_step cfg panics s (Admits t []) (s\<lparr>sys_pc := (sys_pc s)(t := Running g)\<rparr>)"
| cb_enter_deny:
    "sys_pc s t = Outside \<Longrightarrow> cb_read_section cfg (sys_now s) (sys_cb s) = Decided False g \<Longrightarrow>
     cb_step cfg panics s (Denies t []) s"
| cb_enter_open:
    "sys_pc s t = Outside \<Longrightarrow> cb_read_section cfg (sys_now s) (sys_cb s) = NeedOpenLock \<Longrightarrow>
     cb_step cfg panics s (Defers t) (s\<lparr>sys_pc := (sys_pc s)(t := WantOpen)\<rparr>)"
| cb_enter_half:
    "sys_pc s t = Outside \<Longrightarrow> cb_read_section cfg (sys_now s) (sys_cb s) = NeedHalfLock g \<Longrightarrow>
     cb_step cfg panics s (Defers t) (s\<lparr>sys_pc := (sys_pc s)(t := WantHalf g)\<rparr>)"
| cb_open_admit:
    "sys_pc s t = WantOpen \<Longrightarrow> cb_open_section cfg (sys_now s) (sys_cb s) = ((True, g), ts, cb) \<Longrightarrow>
     cb_step cfg panics s (Admits t ts) (s\<lparr>sys_cb := cb, sys_pc := (sys_pc s)(t := Running g)\<rparr>)"
| cb_open_deny:
    "sys_pc s t = WantOpen \<Longrightarrow> cb_open_section cfg (sys_now s) (sys_cb s) = ((False, g), ts, cb) \<Longrightarrow>
     cb_step cfg panics s (Denies t ts) (s\<lparr>sys_cb := cb, sys_pc := (sys_pc s)(t := Outside)\<rparr>)"
| cb_half_admit:
    "sys_pc s t = WantHalf h \<Longrightarrow> cb_half_section h (sys_cb s) = ((True, g), cb) \<Longrightarrow>
     cb_step cfg panics s (Admits t []) (s\<lparr>sys_cb := cb, sys_pc := (sys_pc s)(t := Running g)\<rparr>)"
| cb_half_deny:
    "sys_pc s t = WantHalf h \<Longrightarrow> cb_half_section h (sys_cb s) = ((False, g), cb) \<Longrightarrow>
     cb_step cfg panics s (Denies t []) (s\<lparr>sys_cb := cb, sys_pc := (sys_pc s)(t := Outside)\<rparr>)"
| cb_settle_trip:
    "sys_pc s t = Running g \<Longrightarrow> on_failure cfg (sys_now s) g (sys_cb s) = (ts, cb) \<Longrightarrow>
     cb_step cfg panics s (Settles t True ts) (s\<lparr>sys_cb := cb, sys_pc := (sys_pc s)(t := Outside)\<rparr>)"
| cb_settle_ok:
    "sys_pc s t = Running g \<Longrightarrow> on_success g (sys_cb s) = (ts, cb) \<Longrightarrow>
     cb_step cfg panics s (Settles t False ts) (s\<lparr>sys_cb := cb, sys_pc := (sys_pc s)(t := Outside)\<rparr>)"
| cb_panic:
    "panics \<Longrightarrow> sys_pc s t = Running g \<Longrightarrow>
     cb_step cfg panics s (Panics t) (s\<lparr>sys_pc := (sys_pc s)(t := Outside)\<rparr>)"

inductive_cases cb_clockE: "cb_step cfg panics s (Clock d) s'"
inductive_cases cb_admitE: "cb_step cfg panics s (Admits t ts) s'"
inductive_cases cb_settleE: "cb_step cfg panics s (Settles t b ts) s'"
inductive_simps cb_panic_iff: "cb_step cfg panics s (Panics t) s'"

definition cb_init :: "cb_sys \<Rightarrow> bool" where
  "cb_init s \<longleftrightarrow> sys_cb s = new_circuit \<and> (\<forall>t. sys_pc s t = Outside)"

text \<open>The fields keep their invariant in every interleaving, panics included.\<close>

interpretation cb_fields: invariant_system
  "\<lambda>s. circuit_config_ok cfg \<and> cb_init s" "cb_step cfg panics"
  "\<lambda>s. circuit_config_ok cfg \<and> circuit_inv cfg (sys_cb s)" for cfg panics
proof unfold_locales
  fix s assume "circuit_config_ok cfg \<and> cb_init s"
  then show "circuit_config_ok cfg \<and> circuit_inv cfg (sys_cb s)"
    by (simp add: cb_init_def circuit_inv_new)
next
  fix s l s'
  assume inv: "circuit_config_ok cfg \<and> circuit_inv cfg (sys_cb s)" and "cb_step cfg panics s l s'"
  from this(2) show "circuit_config_ok cfg \<and> circuit_inv cfg (sys_cb s')"
    using inv
    by cases (auto intro: cb_open_section_inv cb_half_section_inv on_success_inv on_failure_inv)
qed

subsection \<open>The transitions that are reported\<close>

text \<open>
  The reported transitions form a path of the state machine: each starts in the state in which
  the one before ended, and each is one of the four the breaker makes.
\<close>

definition legal_transition :: "transition \<Rightarrow> bool" where
  "legal_transition x \<longleftrightarrow> x \<in> {(StateClosed, StateOpen), (StateOpen, StateHalfOpen),
     (StateHalfOpen, StateClosed), (StateHalfOpen, StateOpen)}"

fun transition_path :: "cb_state \<Rightarrow> transition list \<Rightarrow> cb_state \<Rightarrow> bool" where
  "transition_path a [] b \<longleftrightarrow> a = b"
| "transition_path a (x # xs) b \<longleftrightarrow> fst x = a \<and> legal_transition x \<and> transition_path (snd x) xs b"

lemma transition_path_append:
  "transition_path a (xs @ ys) c \<longleftrightarrow> (\<exists>b. transition_path a xs b \<and> transition_path b ys c)"
  by (induction xs arbitrary: a) auto

lemma section_paths:
  "cb_open_section cfg now cb = (r, ts, cb') \<Longrightarrow> transition_path (cb_state cb) ts (cb_state cb')"
  "cb_half_section g cb = (r, cb') \<Longrightarrow> cb_state cb' = cb_state cb"
  "on_failure cfg now g cb = (ts, cb') \<Longrightarrow> transition_path (cb_state cb) ts (cb_state cb')"
  "on_success g cb = (ts, cb') \<Longrightarrow> transition_path (cb_state cb) ts (cb_state cb')"
  by (auto simp: state_defs Let_def legal_transition_def split: if_splits cb_state.splits)

lemma cb_step_path:
  "cb_step cfg panics s l s' \<Longrightarrow>
   transition_path (cb_state (sys_cb s)) (label_transitions l) (cb_state (sys_cb s'))"
  by (induction rule: cb_step.induct) (auto dest: section_paths)

lemma cb_run_path:
  "run (cb_step cfg panics) s ls s' \<Longrightarrow>
   transition_path (cb_state (sys_cb s)) (concat (map label_transitions ls)) (cb_state (sys_cb s'))"
  by (induction rule: run.induct) (auto simp: transition_path_append dest: cb_step_path)

subsection \<open>Probes of a half-open period\<close>

text \<open>While the breaker stays half-open, every admission uses up one of its permits.\<close>

definition half_open_step :: "circuit_config \<Rightarrow> bool \<Rightarrow> cb_sys \<Rightarrow> cb_label \<Rightarrow> cb_sys \<Rightarrow> bool" where
  "half_open_step cfg panics s l s' \<longleftrightarrow>
     cb_step cfg panics s l s' \<and> cb_state (sys_cb s) = StateHalfOpen \<and> label_transitions l = []"

lemma cb_open_section_quiet:
  "cb_open_section cfg now cb = (r, [], cb') \<Longrightarrow> cb_state cb = StateHalfOpen \<Longrightarrow>
   cb_state cb' = StateHalfOpen \<and>
   unat (cb_permits cb') + (if fst r then 1 else 0) = unat (cb_permits cb)"
  using Suc_unat_minus_one [of "cb_permits cb"]
  by (cases "cb_permits cb > 0") (auto simp: cb_open_section_def Let_def)

lemma cb_half_section_quiet:
  "cb_half_section g cb = (r, cb') \<Longrightarrow> cb_state cb = StateHalfOpen \<Longrightarrow>
   cb_state cb' = StateHalfOpen \<and>
   unat (cb_permits cb') + (if fst r then 1 else 0) = unat (cb_permits cb)"
  using Suc_unat_minus_one [of "cb_permits cb"]
  by (cases "cb_permits cb > 0") (auto simp: cb_half_section_def)

lemma settle_quiet:
  "on_failure cfg now g cb = ([], cb') \<Longrightarrow> cb_state cb = StateHalfOpen \<Longrightarrow> cb' = cb"
  "on_success g cb = ([], cb') \<Longrightarrow> cb_state cb = StateHalfOpen \<Longrightarrow> cb' = cb"
  by (auto simp: on_failure_def on_success_def Let_def split: if_splits)

lemma half_open_step_stays:
  "half_open_step cfg panics s l s' \<Longrightarrow> cb_state (sys_cb s') = StateHalfOpen"
  unfolding half_open_step_def by (auto dest: cb_step_path)

interpretation probes: potential_system
  "half_open_step cfg panics" "\<lambda>s. unat (cb_permits (sys_cb s))"
  "\<lambda>l. if is_admit l then 1 else 0" "\<lambda>l. 0" for cfg panics
proof unfold_locales
  fix s l s' assume "half_open_step cfg panics s l s'"
  then have half: "cb_state (sys_cb s) = StateHalfOpen" and quiet: "label_transitions l = []"
    and step: "cb_step cfg panics s l s'"
    by (auto simp: half_open_step_def)
  from step show "unat (cb_permits (sys_cb s')) + (if is_admit l then 1 else 0)
      \<le> unat (cb_permits (sys_cb s)) + 0"
    using half quiet
    by cases (auto simp: cb_read_section_def split: if_splits
        dest: cb_open_section_quiet cb_half_section_quiet settle_quiet)
qed

lemma quiet_run_half_open:
  "run (cb_step cfg panics) s ls s' \<Longrightarrow> cb_state (sys_cb s) = StateHalfOpen \<Longrightarrow>
   \<forall>l \<in> set ls. label_transitions l = [] \<Longrightarrow> run (half_open_step cfg panics) s ls s'"
proof (induction rule: run.induct)
  case (run_Nil s)
  show ?case by simp
next
  case (run_Cons s l t ls u)
  then have "half_open_step cfg panics s l t" by (simp add: half_open_step_def)
  with run_Cons show ?case by (auto intro: half_open_step_stays)
qed

subsection \<open>A half-open breaker is always being probed, unless a probe panics\<close>

definition probing :: "cb_sys \<Rightarrow> bool" where
  "probing s \<longleftrightarrow> (cb_state (sys_cb s) = StateHalfOpen \<longrightarrow>
     (\<exists>t. sys_pc s t = Running (cb_generation (sys_cb s))))"

lemma cb_open_section_probing:
  "cb_open_section cfg now cb = ((b, g), ts, cb') \<Longrightarrow> circuit_config_ok cfg \<Longrightarrow>
   cb_state cb' = StateHalfOpen \<Longrightarrow>
   (cb_state cb = StateHalfOpen \<and> cb_generation cb' = cb_generation cb) \<or> (b \<and> g = cb_generation cb')"
  by (auto simp: cb_open_section_def circuit_config_ok_def Let_def split: if_splits)

lemma cb_half_section_generation:
  "cb_half_section h cb = (r, cb') \<Longrightarrow> cb_generation cb' = cb_generation cb"
  by (auto simp: cb_half_section_def split: if_splits)

lemma settle_half_open:
  "on_failure cfg now g cb = (ts, cb') \<Longrightarrow> cb_state cb' = StateHalfOpen \<Longrightarrow> cb' = cb \<and> g \<noteq> cb_generation cb"
  "on_success g cb = (ts, cb') \<Longrightarrow> cb_state cb' = StateHalfOpen \<Longrightarrow> cb' = cb \<and> g \<noteq> cb_generation cb"
  by (auto simp: on_failure_def on_success_def Let_def split: if_splits cb_state.splits)

text \<open>
  What keeps a half-open breaker probed: a step either admits the probe of a new period, or
  stays in the period and lets its probes run on.
\<close>

lemma probing_keep:
  assumes "probing s" and "cb_state (sys_cb s) = StateHalfOpen"
    and "cb_generation (sys_cb s') = cb_generation (sys_cb s)"
    and "\<And>u. sys_pc s u = Running (cb_generation (sys_cb s)) \<Longrightarrow> sys_pc s' u = sys_pc s u"
  shows "probing s'"
  using assms unfolding probing_def by metis

lemma probing_new: "sys_pc s t = Running (cb_generation (sys_cb s)) \<Longrightarrow> probing s"
  by (auto simp: probing_def)

lemma cb_step_probing:
  assumes ok: "circuit_config_ok cfg" and inv: "probing s" and step: "cb_step cfg False s l s'"
  shows "probing s'"
proof (cases "cb_state (sys_cb s') = StateHalfOpen")
  case False
  then show ?thesis by (simp add: probing_def)
next
  case half: True
  from step show ?thesis
  proof cases
    case (cb_open_admit t g ts cb)
    from cb_open_section_probing [OF this(4) ok] half this(2)
    have "(cb_state (sys_cb s) = StateHalfOpen \<and> cb_generation cb = cb_generation (sys_cb s))
        \<or> g = cb_generation cb"
      by simp
    then show ?thesis
    proof
      assume "cb_state (sys_cb s) = StateHalfOpen \<and> cb_generation cb = cb_generation (sys_cb s)"
      with inv cb_open_admit(2,3) show ?thesis by - (rule probing_keep [of s], auto)
    next
      assume "g = cb_generation cb"
      with cb_open_admit(2) show ?thesis by (intro probing_new [of _ t]) simp
    qed
  next
    case (cb_open_deny t g ts cb)
    with half cb_open_section_probing [of cfg "sys_now s" "sys_cb s" False g ts cb] ok inv
    show ?thesis
      by - (rule probing_keep [of s], auto)
  next
    case (cb_half_admit t h g cb)
    with half inv show ?thesis
      by - (rule probing_keep [of s], auto dest: cb_half_section_generation section_paths(2))
  next
    case (cb_half_deny t h g cb)
    with half inv show ?thesis
      by - (rule probing_keep [of s], auto dest: cb_half_section_generation section_paths(2))
  next
    case (cb_settle_trip t g ts cb)
    with half inv show ?thesis
      using settle_half_open(1) [of cfg "sys_now s" g "sys_cb s" ts cb]
      by - (rule probing_keep [of s], auto)
  next
    case (cb_settle_ok t g ts cb)
    with half inv show ?thesis
      using settle_half_open(2) [of g "sys_cb s" ts cb]
      by - (rule probing_keep [of s], auto)
  qed (use half inv in \<open>force simp: probing_def\<close>)+
qed

interpretation cb_probing: invariant_system
  "\<lambda>s. circuit_config_ok cfg \<and> cb_init s" "cb_step cfg False"
  "\<lambda>s. circuit_config_ok cfg \<and> probing s" for cfg
proof unfold_locales
  fix s assume "circuit_config_ok cfg \<and> cb_init s"
  then show "circuit_config_ok cfg \<and> probing s"
    by (simp add: cb_init_def probing_def new_circuit_def)
qed (blast intro: cb_step_probing)

text \<open>
  A half-open breaker whose permits are used up and of whose probes none is left running: the
  state a panicking probe leaves behind. No step leads out of it.
\<close>

definition stuck :: "cb_sys \<Rightarrow> bool" where
  "stuck s \<longleftrightarrow> cb_state (sys_cb s) = StateHalfOpen \<and> cb_permits (sys_cb s) = 0 \<and>
     (\<forall>t. sys_pc s t \<noteq> Running (cb_generation (sys_cb s)))"

lemma stuck_step:
  assumes "stuck s" and "cb_step cfg panics s l s'"
  shows "stuck s' \<and> \<not> is_admit l"
  using assms(2,1)
  by cases (auto simp: stuck_def state_defs split: if_splits)

interpretation cb_stuck: trap_system "cb_step cfg panics" stuck for cfg panics
  by unfold_locales (simp add: stuck_step)

lemma stuck_no_admit:
  "run (cb_step cfg panics) s ls s' \<Longrightarrow> stuck s \<Longrightarrow> \<forall>l \<in> set ls. \<not> is_admit l"
  by (induction rule: run.induct) (auto dest: stuck_step)

subsection \<open>The states that the theorems speak of exist\<close>

lemma probe_settles:
  assumes "sys_pc s t = Running (cb_generation (sys_cb s))" and "cb_state (sys_cb s) = StateHalfOpen"
  shows "\<exists>ts s'. cb_step cfg panics s (Settles t b ts) s' \<and>
    cb_state (sys_cb s') = (if b then StateOpen else StateClosed)"
proof (cases b)
  case True
  obtain ts cb where f: "on_failure cfg (sys_now s) (cb_generation (sys_cb s)) (sys_cb s) = (ts, cb)"
    by fastforce
  then have "cb_state cb = StateOpen"
    using assms(2) by (auto simp: on_failure_def Let_def split: if_splits)
  with True cb_settle_trip [OF assms(1) f] show ?thesis by fastforce
next
  case False
  obtain ts cb where f: "on_success (cb_generation (sys_cb s)) (sys_cb s) = (ts, cb)"
    by fastforce
  then have "cb_state cb = StateClosed"
    using assms(2) by (auto simp: on_success_def Let_def split: if_splits)
  with False cb_settle_ok [OF assms(1) f] show ?thesis by fastforce
qed

text \<open>An open breaker that nobody is in: once its duration is over, goroutine 0 becomes the probe.\<close>

lemma open_to_half:
  assumes "circuit_config_ok cfg" and "cb_state (sys_cb s) = StateOpen" and "sys_pc s t = Outside"
    and "0 \<le> OpenDuration cfg"
  shows "\<exists>d s'. run (cb_step cfg panics) s
      [Clock d, Defers t, Admits t [(StateOpen, StateHalfOpen)]] s' \<and>
    cb_state (sys_cb s') = StateHalfOpen \<and> cb_permits (sys_cb s') = HalfOpenMaxReqs cfg - 1 \<and>
    sys_pc s' = (sys_pc s)(t := Running (cb_generation (sys_cb s')))"
proof -
  let ?d = "max 0 (cb_openedAt (sys_cb s) + OpenDuration cfg - sys_now s)"
  let ?a = "s\<lparr>sys_now := sys_now s + ?d\<rparr>"
  let ?b = "?a\<lparr>sys_pc := (sys_pc ?a)(t := WantOpen)\<rparr>"
  have m: "0 < HalfOpenMaxReqs cfg" using assms(1) by (simp add: circuit_config_ok_def)
  have over: "OpenDuration cfg \<le> sys_now ?a - cb_openedAt (sys_cb ?a)" by simp
  obtain b g ts cb where sec0: "cb_open_section cfg (sys_now ?b) (sys_cb ?b) = ((b, g), ts, cb)"
    by (metis surj_pair)
  then have "b" "ts = [(StateOpen, StateHalfOpen)]"
    and cb: "cb_state cb = StateHalfOpen" "cb_permits cb = HalfOpenMaxReqs cfg - 1" "g = cb_generation cb"
    using assms(2) over m by (auto simp: cb_open_section_def Let_def)
  with sec0 have sec: "cb_open_section cfg (sys_now ?b) (sys_cb ?b) = ((True, g), [(StateOpen, StateHalfOpen)], cb)"
    by simp
  let ?c = "?b\<lparr>sys_cb := cb, sys_pc := (sys_pc ?b)(t := Running g)\<rparr>"
  have "cb_step cfg panics s (Clock ?d) ?a" by (rule cb_clock) simp
  moreover have "cb_step cfg panics ?a (Defers t) ?b"
    by (rule cb_enter_open) (use assms over in \<open>simp_all add: cb_read_section_def\<close>)
  moreover have "cb_step cfg panics ?b (Admits t [(StateOpen, StateHalfOpen)]) ?c"
    by (rule cb_open_admit) (use sec in simp_all)
  ultimately have "run (cb_step cfg panics) s [Clock ?d, Defers t, Admits t [(StateOpen, StateHalfOpen)]] ?c"
    by blast
  with cb show ?thesis by (intro exI [of _ ?d] exI [of _ ?c]) (simp add: fun_upd_upd)
qed

lemma panic_reaches_stuck:
  assumes "circuit_config_ok cfg" and "HalfOpenMaxReqs cfg = 1" and "0 \<le> OpenDuration cfg"
    and "cb_state (sys_cb s) = StateOpen" and "\<forall>t. sys_pc s t = Outside"
  shows "\<exists>ls s'. run (cb_step cfg True) s ls s' \<and> stuck s'"
proof -
  obtain ls t where r: "run (cb_step cfg True) s ls t" and t: "cb_state (sys_cb t) = StateHalfOpen"
    "cb_permits (sys_cb t) = 0" "sys_pc t = (sys_pc s)(0 := Running (cb_generation (sys_cb t)))"
    using open_to_half [OF assms(1,4) _ assms(3), of 0 True] assms(2,5) by auto
  have "cb_step cfg True t (Panics 0) (t\<lparr>sys_pc := (sys_pc t)(0 := Outside)\<rparr>)"
    by (rule cb_panic) (use t in simp_all)
  moreover have "stuck (t\<lparr>sys_pc := (sys_pc t)(0 := Outside)\<rparr>)"
    using t assms(5) by (simp add: stuck_def)
  ultimately show ?thesis using run_snoc [OF r] by blast
qed

text \<open>Failures one after another open the breaker, so half-open states are reachable.\<close>

lemma failure_step:
  assumes "cb_state (sys_cb s) = StateClosed" and "sys_pc s t = Outside"
    and "cb_failures (sys_cb s) + 1 < FailureThreshold cfg"
  shows "run (cb_step cfg panics) s [Admits t [], Settles t True []]
    (s\<lparr>sys_cb := (sys_cb s)\<lparr>cb_failures := cb_failures (sys_cb s) + 1\<rparr>\<rparr>)"
proof -
  let ?g = "cb_generation (sys_cb s)"
  let ?a = "s\<lparr>sys_pc := (sys_pc s)(t := Running ?g)\<rparr>"
  have "cb_step cfg panics s (Admits t []) ?a"
    by (rule cb_enter_admit) (use assms in \<open>simp_all add: cb_read_section_def\<close>)
  moreover have "cb_step cfg panics ?a (Settles t True [])
      (?a\<lparr>sys_cb := (sys_cb s)\<lparr>cb_failures := cb_failures (sys_cb s) + 1\<rparr>, sys_pc := (sys_pc ?a)(t := Outside)\<rparr>)"
    by (rule cb_settle_trip) (use assms in \<open>auto simp: on_failure_def Let_def\<close>)
  moreover have "(sys_pc s)(t := Outside) = sys_pc s" using assms(2) by (simp add: fun_upd_idem)
  ultimately show ?thesis by (auto simp: run_Cons_iff)
qed

lemma trip_step:
  assumes "cb_state (sys_cb s) = StateClosed" and "sys_pc s t = Outside"
    and "FailureThreshold cfg \<le> cb_failures (sys_cb s) + 1"
  shows "\<exists>s'. run (cb_step cfg panics) s [Admits t [], Settles t True [(StateClosed, StateOpen)]] s' \<and>
    cb_state (sys_cb s') = StateOpen \<and> sys_pc s' = sys_pc s"
proof -
  let ?g = "cb_generation (sys_cb s)"
  let ?a = "s\<lparr>sys_pc := (sys_pc s)(t := Running ?g)\<rparr>"
  obtain cb where f: "on_failure cfg (sys_now ?a) ?g (sys_cb ?a) = ([(StateClosed, StateOpen)], cb)"
    and cb: "cb_state cb = StateOpen"
    using assms by (simp add: on_failure_def Let_def)
  let ?b = "?a\<lparr>sys_cb := cb, sys_pc := (sys_pc ?a)(t := Outside)\<rparr>"
  have "cb_step cfg panics s (Admits t []) ?a"
    by (rule cb_enter_admit) (use assms in \<open>simp_all add: cb_read_section_def\<close>)
  moreover have "cb_step cfg panics ?a (Settles t True [(StateClosed, StateOpen)]) ?b"
    by (rule cb_settle_trip) (use f in simp_all)
  moreover have "sys_pc ?b = sys_pc s" using assms(2) by (simp add: fun_upd_idem)
  ultimately show ?thesis using cb by (intro exI [of _ ?b]) (auto simp: run_Cons_iff)
qed

lemma half_open_reachable:
  "\<exists>s0 ls s. cb_init s0 \<and> run (cb_step DefaultCircuitConfig panics) s0 ls s \<and>
     cb_state (sys_cb s) = StateHalfOpen"
proof -
  let ?cfg = "DefaultCircuitConfig"
  let ?f = "\<lambda>n. \<lparr>sys_cb = new_circuit\<lparr>cb_failures := n\<rparr>, sys_now = 0, sys_pc = \<lambda>_. Outside\<rparr>"
  have step: "n + 1 < (5 :: u32) \<Longrightarrow>
      run (cb_step ?cfg panics) (?f n) [Admits 0 [], Settles 0 True []] (?f (n + 1))" for n
    using failure_step [of "?f n" 0 ?cfg panics] by (simp add: new_circuit_def DefaultCircuitConfig_def)
  have four: "\<exists>ls. run (cb_step ?cfg panics) (?f 0) ls (?f 4)"
    using step [of 0] step [of 1] step [of 2] step [of 3] by (auto intro: run_append)
  obtain ls1 s1 where s1: "run (cb_step ?cfg panics) (?f 4) ls1 s1" "cb_state (sys_cb s1) = StateOpen"
    "sys_pc s1 = (\<lambda>_. Outside)"
    using trip_step [of "?f 4" 0 ?cfg panics] by (auto simp: new_circuit_def DefaultCircuitConfig_def)
  have "circuit_config_ok ?cfg" "0 \<le> OpenDuration ?cfg"
    by (simp_all add: circuit_config_ok_def DefaultCircuitConfig_def)
  then obtain ls2 s2 where "run (cb_step ?cfg panics) s1 ls2 s2" "cb_state (sys_cb s2) = StateHalfOpen"
    using open_to_half [of ?cfg s1 0 panics] s1 by auto
  with four s1 have "\<exists>ls. run (cb_step ?cfg panics) (?f 0) ls s2" by (blast intro: run_append)
  moreover have "cb_init (?f 0)" by (simp add: cb_init_def new_circuit_def)
  ultimately show ?thesis using \<open>cb_state (sys_cb s2) = StateHalfOpen\<close> by blast
qed

end
