(* ===== verification/Health.thy ===== *)
theory Health
  imports Client
begin

section \<open>Health checks: \<open>health.go\<close>\<close>

text \<open>
  A client makes its health checker at the first call of \<open>HealthChecker\<close>; the world keeps it under
  the client's reference. \<open>get_status\<close> is \<open>getStatus\<close>: the map of policy values as an association
  list, so a later policy of a kind replaces what an earlier one wrote. Encoding the status as
  JSON is the library's. \<open>refresh_rounds\<close> is the loop of the background goroutine, for as many ticks
  as the environment delivers.

  The lemmas say which breaker decides the status, and what closing twice does.
\<close>

subsection \<open>The checker\<close>

definition set_checker :: "nat \<Rightarrow> health_checker \<Rightarrow> unit prog" where
  "set_checker ref h = modify (\<lambda>w. w\<lparr>w_checkers := (w_checkers w)(ref \<mapsto> h)\<rparr>)"

definition read_mem_stats :: "memory_stats prog" where
  "read_mem_stats w = (Returned (w_memory w (w_pos w)), w\<lparr>w_pos := Suc (w_pos w)\<rparr>)"

definition refresh_mem_stats :: "nat \<Rightarrow> unit prog" where
  "refresh_mem_stats ref =
     bind read_mem_stats (\<lambda>m.
     bind go_now (\<lambda>now.
     modify (\<lambda>w. w\<lparr>w_checkers := (w_checkers w)(ref :=
       map_option (\<lambda>h. h\<lparr>hk_memStats := Some m, hk_memUpdated := now\<rparr>) (w_checkers w ref))\<rparr>)))"

definition NewHealthChecker :: "nat \<Rightarrow> unit prog" where
  "NewHealthChecker ref =
     bind go_now (\<lambda>now.
     bind (set_checker ref \<lparr>hk_started = now, hk_memStats = None, hk_memUpdated = 0, hk_stopped = False\<rparr>) (\<lambda>_.
     refresh_mem_stats ref))"

definition client_health_checker :: "client \<Rightarrow> nat prog" where
  "client_health_checker c =
     bind (get (\<lambda>w. w_checkers w (c_hcRef c))) (\<lambda>h.
     bind (if h = None then NewHealthChecker (c_hcRef c) else return ()) (\<lambda>_.
     return (c_hcRef c)))"

definition is_stopped :: "nat \<Rightarrow> world \<Rightarrow> bool" where
  "is_stopped ref w \<longleftrightarrow> (case w_checkers w ref of None \<Rightarrow> True | Some h \<Rightarrow> hk_stopped h)"

fun refresh_rounds :: "nat \<Rightarrow> nat \<Rightarrow> unit prog" where
  "refresh_rounds 0 ref = return ()"
| "refresh_rounds (Suc ticks) ref =
     bind (get (is_stopped ref)) (\<lambda>stopped.
     bind (if stopped then pick_case else return True) (\<lambda>tick.
     if tick then bind (refresh_mem_stats ref) (\<lambda>_. refresh_rounds ticks ref)
     else return ()))"

subsection \<open>The status\<close>

record health_status =
  hs_Timestamp :: instant
  hs_Policies :: "(string \<times> string) list"
  hs_Status :: string
  hs_Memory :: memory_stats
  hs_Uptime :: duration

text \<open>\<open>strconv.FormatUint\<close> is \<open>itoa\<close> on a number that is not negative.\<close>

fun status_entries :: "world \<Rightarrow> policy list \<Rightarrow> (string \<times> string) list \<Rightarrow> (string \<times> string) list" where
  "status_entries w [] m = m"
| "status_entries w (PCircuit p # ps) m =
     status_entries w ps (AList.update ''circuit_breaker'' (state_text (circuit_state p w)) m)"
| "status_entries w (PConcurrent p # ps) m = status_entries w ps
     (case conc_kind p of
        BulkheadKind cfg \<Rightarrow>
          AList.update ''bulkhead_denied'' (itoa (uint (bv_denied (conc_behaviour p) w)))
            (AList.update ''bulkhead_in_flight'' (itoa (uint (bv_inFlight (conc_behaviour p) w))) m)
      | _ \<Rightarrow> m)"
| "status_entries w (p # ps) m = status_entries w ps m"

definition status_of :: "(string \<times> string) list \<Rightarrow> string" where
  "status_of m = (if list_ex (\<lambda>(k, v). v = ''open'') m then ''degraded'' else ''healthy'')"

definition zero_memory :: memory_stats where
  "zero_memory = \<lparr>Alloc = 0, TotalAlloc = 0, Sys = 0, NumGC = 0\<rparr>"

definition get_status :: "client \<Rightarrow> health_status prog" where
  "get_status c =
     bind (get (\<lambda>w. w_checkers w (c_hcRef c))) (\<lambda>h.
     case h of
       None \<Rightarrow> panic nil_dereference
     | Some h \<Rightarrow>
         bind (get (\<lambda>w. status_entries w (c_policies c) [])) (\<lambda>m.
         bind go_now (\<lambda>now1.
         bind go_now (\<lambda>now2.
         return \<lparr>hs_Timestamp = now1, hs_Policies = m, hs_Status = status_of m,
           hs_Memory = (case hk_memStats h of None \<Rightarrow> zero_memory | Some s \<Rightarrow> s),
           hs_Uptime = now2 - hk_started h\<rparr>))))"

text \<open>\<open>Handler\<close>: the status code that is sent, and the status that is encoded.\<close>

definition health_handler :: "client \<Rightarrow> (int \<times> health_status) prog" where
  "health_handler c = bind (get_status c) (\<lambda>s.
     return (if hs_Status s \<noteq> ''healthy'' then StatusServiceUnavailable else 200, s))"

subsection \<open>Which breaker decides\<close>

fun last_breaker :: "policy list \<Rightarrow> circuit_policy option" where
  "last_breaker [] = None"
| "last_breaker (PCircuit p # ps) = (case last_breaker ps of None \<Rightarrow> Some p | Some q \<Rightarrow> Some q)"
| "last_breaker (p # ps) = last_breaker ps"

lemma status_entries_breaker:
  "map_of (status_entries w ps m) ''circuit_breaker'' =
     (case last_breaker ps of None \<Rightarrow> map_of m ''circuit_breaker'' | Some p \<Rightarrow> Some (state_text (circuit_state p w)))"
  by (induction w ps m rule: status_entries.induct)
    (auto simp: update_conv' split: option.split concurrent_kind.split)

lemma status_entries_distinct: "distinct (map fst m) \<Longrightarrow> distinct (map fst (status_entries w ps m))"
  by (induction w ps m rule: status_entries.induct)
    (auto simp: distinct_update split: concurrent_kind.split)

lemma itoa_not_open: "0 \<le> i \<Longrightarrow> itoa i \<noteq> ''open''"
  using nat_text_digits [of "nat i"] by (auto simp: itoa_def is_digit_def)

lemma status_entries_other:
  assumes "\<And>k v. map_of m k = Some v \<Longrightarrow> k \<noteq> ''circuit_breaker'' \<Longrightarrow> v \<noteq> ''open''"
  shows "map_of (status_entries w ps m) k = Some v \<Longrightarrow> k \<noteq> ''circuit_breaker'' \<Longrightarrow> v \<noteq> ''open''"
  using assms
proof (induction w ps m rule: status_entries.induct)
  case (3 w p ps m)
  show ?case
  proof (rule "3.IH")
    show "map_of (status_entries w ps (case conc_kind p of
        BulkheadKind cfg \<Rightarrow>
          AList.update ''bulkhead_denied'' (itoa (uint (bv_denied (conc_behaviour p) w)))
            (AList.update ''bulkhead_in_flight'' (itoa (uint (bv_inFlight (conc_behaviour p) w))) m)
      | _ \<Rightarrow> m)) k = Some v" using "3.prems"(1) by simp
  qed (use "3.prems" in \<open>auto simp: update_conv' itoa_not_open split: concurrent_kind.splits if_splits\<close>)
qed (auto simp: update_conv' split: if_splits)

lemma status_of_last_breaker:
  "status_of (status_entries w ps []) =
     (case last_breaker ps of
        Some p \<Rightarrow> if circuit_state p w = StateOpen then ''degraded'' else ''healthy''
      | None \<Rightarrow> ''healthy'')"
proof -
  let ?m = "status_entries w ps []"
  have d: "distinct (map fst ?m)" by (rule status_entries_distinct) simp
  have "list_ex (\<lambda>(k, v). v = ''open'') ?m \<longleftrightarrow> (\<exists>k. map_of ?m k = Some ''open'')"
    using d by (auto simp: list_ex_iff map_of_eq_Some_iff)
  also have "\<dots> \<longleftrightarrow> map_of ?m ''circuit_breaker'' = Some ''open''"
    using status_entries_other [of "[]" w ps] by (metis map_of.simps(1) option.distinct(1))
  also have "\<dots> \<longleftrightarrow> (\<exists>p. last_breaker ps = Some p \<and> circuit_state p w = StateOpen)"
    using state_text_inject [of _ StateOpen]
    by (auto simp: status_entries_breaker state_text_def split: option.split cb_state.splits)
  finally show ?thesis
    by (auto simp: status_of_def split: option.split)
qed

lemma health_handler_eval:
  assumes "w_checkers w (c_hcRef c) = Some h"
  obtains s w' where "health_handler c w = (Returned (if hs_Status s \<noteq> ''healthy'' then 503 else 200, s), w')"
    and "hs_Status s = status_of (status_entries w (c_policies c) [])"
    and "hs_Timestamp s - hk_started h \<le> hs_Uptime s"
  using assms
  by (simp add: health_handler_def get_status_def go_now_def return_def bind_def get_def Let_def)

subsection \<open>Closing\<close>

text \<open>The goroutine stops at the first round it sees the channel closed, unless a tick is taken.\<close>

lemma checker_close_twice:
  assumes "checker_close ref w = (Returned (), w')"
  shows "checker_close ref w' = (Panicked ''close of closed channel'', w')" and "is_stopped ref w'"
  using assms by (auto simp: checker_close_def is_stopped_def split: option.splits if_splits)

lemma client_health_checker_once:
  assumes "client_health_checker c w = (Returned ref, w1)"
  obtains h where "ref = c_hcRef c" and "w_checkers w1 ref = Some h"
    and "client_health_checker c w1 = (Returned ref, w1)"
  using assms
  by (cases "w_checkers w (c_hcRef c)")
    (auto simp: client_health_checker_def NewHealthChecker_def set_checker_def refresh_mem_stats_def
      read_mem_stats_def go_now_def modify_def bind_def get_def return_def Let_def)

lemma client_close_twice:
  assumes "close_policies (c_policies c) = return ()" and "w_checkers w (c_hcRef c) = Some h" and "\<not> hk_stopped h"
  shows "\<exists>w'. client_close c w = (Returned (), w') \<and>
    client_close c w' = (Panicked ''close of closed channel'', w')"
  using assms by (simp add: client_close_def checker_close_def)

end
