(* ===== verification/Json.thy ===== *)
theory Json
  imports Client
begin

section \<open>JSON helpers: \<open>json.go\<close>\<close>

text \<open>
  \<open>GetJSON\<close> and \<open>PostJSON\<close>. What \<open>encoding/json\<close> makes of the bytes of a body, and of the error that
  ended them, is the parameter \<open>decode\<close>; \<open>marshal\<close> is \<open>json.Marshal\<close> of the value that is posted. The
  result is a value of the type asked for and an error; the value is \<open>zero\<close> with every error.
  \<open>defer resp.Body.Close()\<close> evaluates \<open>resp.Body\<close> when it is reached, so a nil response panics there.
\<close>

type_synonym 'a decoder = "bytes \<Rightarrow> go_error option \<Rightarrow> go_error + 'a"
type_synonym 'a json_result = "'a \<times> go_error option"

definition http_status_error :: "string \<Rightarrow> string \<Rightarrow> int \<Rightarrow> string \<Rightarrow> go_error" where
  "http_status_error meth url status body =
     RequestError meth url (Some (ErrorString (''HTTP '' @ itoa status @ '': '' @ body))) '''' status 1"

definition bytes_text :: "bytes \<Rightarrow> string" where
  "bytes_text bs = map (\<lambda>b. char_of (unat b)) bs"

text \<open>What both do with a response, its body closed at the end.\<close>

definition decode_response :: "'a decoder \<Rightarrow> 'a \<Rightarrow> string \<Rightarrow> string \<Rightarrow> response \<Rightarrow> nat \<Rightarrow> 'a json_result prog" where
  "decode_response decode zero meth url resp i =
     bind (read_all i) (\<lambda>(bs, err).
       if rs_status resp \<ge> 400
       then return (zero, Some (http_status_error meth url (rs_status resp) (bytes_text bs)))
       else (case decode bs err of
           Inl e \<Rightarrow> return (zero, Some (errorf_tw ''ambatukam: decode JSON'' e))
         | Inr v \<Rightarrow> return (v, None)))"

definition close_reader_at :: "nat \<Rightarrow> world \<Rightarrow> world" where
  "close_reader_at i w = w\<lparr>w_readers := (w_readers w)(i := close_reader (w_readers w i))\<rparr>"

definition json_reply :: "'a decoder \<Rightarrow> 'a \<Rightarrow> string \<Rightarrow> string \<Rightarrow> reply \<Rightarrow> 'a json_result prog" where
  "json_reply decode zero meth url r =
     (case snd r of
        Some e \<Rightarrow> return (zero, Some e)
      | None \<Rightarrow>
          (case fst r of
             None \<Rightarrow> panic nil_dereference
           | Some resp \<Rightarrow>
               (case rs_body resp of
                  None \<Rightarrow> panic nil_dereference
                | Some i \<Rightarrow> deferred (close_reader_at i) (decode_response decode zero meth url resp i))))"

definition GetJSON :: "url_parser \<Rightarrow> 'a decoder \<Rightarrow> 'a \<Rightarrow> client \<Rightarrow> ctx \<Rightarrow> string \<Rightarrow> 'a json_result prog" where
  "GetJSON parse decode zero c cx url =
     bind (client_Get parse c cx url) (json_reply decode zero MethodGet url)"

text \<open>No value to post means an empty body, not none.\<close>

definition PostJSON ::
  "url_parser \<Rightarrow> 'a decoder \<Rightarrow> 'a \<Rightarrow> (go_error + bytes) option \<Rightarrow> client \<Rightarrow> ctx \<Rightarrow> string \<Rightarrow> 'a json_result prog" where
  "PostJSON parse decode zero marshalled c cx url =
     (case (case marshalled of None \<Rightarrow> Inr [] | Some m \<Rightarrow> m) of
        Inl e \<Rightarrow> return (zero, Some (errorf_tw ''ambatukam: marshal request body'' e))
      | Inr bs \<Rightarrow>
          bind (new_bytes_reader bs) (\<lambda>i.
          bind (client_Post parse c cx url ''application/json'' (Some \<lparr>io_reader = i, io_known = None\<rparr>))
            (json_reply decode zero MethodPost url)))"

subsection \<open>Every outcome\<close>

lemma decode_response_eval:
  assumes "fst (read_all i w) = Returned (bs, err)"
  obtains w' where "decode_response decode zero meth url resp i w =
    (Returned (if rs_status resp \<ge> 400
       then (zero, Some (http_status_error meth url (rs_status resp) (bytes_text bs)))
       else (case decode bs err of Inl e \<Rightarrow> (zero, Some (errorf_tw ''ambatukam: decode JSON'' e)) | Inr v \<Rightarrow> (v, None))), w')"
  using assms
  by (intro that [of "snd (read_all i w)"], cases "read_all i w")
    (auto simp: decode_response_def return_def split: sum.split)

lemma json_reply_response:
  assumes "fst (read_all i w) = Returned (bs, err)" and "rs_body resp = Some i"
  obtains w' where "json_reply decode zero meth url (Some resp, None) w =
    (Returned (if rs_status resp \<ge> 400
       then (zero, Some (http_status_error meth url (rs_status resp) (bytes_text bs)))
       else (case decode bs err of Inl e \<Rightarrow> (zero, Some (errorf_tw ''ambatukam: decode JSON'' e)) | Inr v \<Rightarrow> (v, None))),
     close_reader_at i w')"
proof -
  obtain w' where "decode_response decode zero meth url resp i w =
    (Returned (if rs_status resp \<ge> 400
       then (zero, Some (http_status_error meth url (rs_status resp) (bytes_text bs)))
       else (case decode bs err of Inl e \<Rightarrow> (zero, Some (errorf_tw ''ambatukam: decode JSON'' e)) | Inr v \<Rightarrow> (v, None))), w')"
    by (rule decode_response_eval [OF assms(1)])
  with that show ?thesis by (simp add: json_reply_def assms(2))
qed

lemma json_reply_error: "json_reply decode zero meth url (r, Some e) w = (Returned (zero, Some e), w)"
  by (simp add: json_reply_def return_def)

lemma json_reply_nil: "json_reply decode zero meth url (None, None) w = (Panicked nil_dereference, w)"
  by (simp add: json_reply_def panic_def)

text \<open>An error status always comes out as a \<open>RequestError\<close> with that status.\<close>

lemma http_status_error_as:
  "errors_as is_request_error (Some (http_status_error meth url status body)) =
     Some (http_status_error meth url status body)"
  "re_attempts (http_status_error meth url status body) = 1"
  by (simp_all add: http_status_error_def errors_as_def)

lemma PostJSON_marshal_error:
  "PostJSON parse decode zero (Some (Inl e)) c cx url w =
     (Returned (zero, Some (errorf_tw ''ambatukam: marshal request body'' e)), w)"
  by (simp add: PostJSON_def return_def)

end
