(* ===== verification/Logging.thy ===== *)
theory Logging
  imports Request_Policies
begin

section \<open>The adapter from \<open>slog\<close> to a custom logger: \<open>metrics.go\<close>\<close>

text \<open>
  \<open>customLoggerHandler\<close> hands a record to one of the four methods of the user's \<open>Logger\<close>, with the
  attributes of the handler and then those of the record as alternating keys and values. Levels are
  \<open>slog\<close>'s integers. The methods are ordered by severity, as an instance of \<open>linorder\<close>.
\<close>

datatype log_method = LogDebug | LogInfo | LogWarn | LogError

fun severity :: "log_method \<Rightarrow> nat" where
  "severity LogDebug = 0"
| "severity LogInfo = 1"
| "severity LogWarn = 2"
| "severity LogError = 3"

lemma severity_inject: "severity a = severity b \<Longrightarrow> a = b"
  by (cases a; cases b) simp_all

instantiation log_method :: linorder
begin

definition less_eq_log_method :: "log_method \<Rightarrow> log_method \<Rightarrow> bool" where
  "a \<le> b \<longleftrightarrow> severity a \<le> severity b"

definition less_log_method :: "log_method \<Rightarrow> log_method \<Rightarrow> bool" where
  "a < b \<longleftrightarrow> severity a < severity b"

instance
  by standard (auto simp: less_eq_log_method_def less_log_method_def intro: severity_inject)

end

abbreviation (input) LevelDebugValue :: int where "LevelDebugValue \<equiv> -4"
abbreviation (input) LevelInfoValue :: int where "LevelInfoValue \<equiv> 0"
abbreviation (input) LevelWarnValue :: int where "LevelWarnValue \<equiv> 4"
abbreviation (input) LevelErrorValue :: int where "LevelErrorValue \<equiv> 8"

type_synonym attr = "string \<times> log_value"

datatype log_arg = ArgKey string | ArgValue log_value

record slog_record =
  sr_level :: int
  sr_message :: string
  sr_attrs :: "attr list"

record custom_handler =
  hd_logger :: nat
  hd_group :: string
  hd_attrs :: "attr list"

definition handler_Enabled :: "custom_handler \<Rightarrow> int \<Rightarrow> bool" where
  "handler_Enabled h level = True"

definition method_of :: "int \<Rightarrow> log_method" where
  "method_of level =
     (if level \<ge> LevelErrorValue then LogError
      else if level \<ge> LevelWarnValue then LogWarn
      else if level \<ge> LevelInfoValue then LogInfo
      else LogDebug)"

definition flatten_attrs :: "attr list \<Rightarrow> log_arg list" where
  "flatten_attrs as = concat (map (\<lambda>(k, v). [ArgKey k, ArgValue v]) as)"

text \<open>The call of the user's logger: which one, the method, the message and the arguments.\<close>

definition handler_Handle :: "custom_handler \<Rightarrow> slog_record \<Rightarrow> nat \<times> log_method \<times> string \<times> log_arg list" where
  "handler_Handle h r = (hd_logger h, method_of (sr_level r), sr_message r,
     flatten_attrs (hd_attrs h) @ flatten_attrs (sr_attrs r))"

definition handler_WithAttrs :: "attr list \<Rightarrow> custom_handler \<Rightarrow> custom_handler" where
  "handler_WithAttrs as h = h\<lparr>hd_attrs := hd_attrs h @ as\<rparr>"

definition handler_WithGroup :: "string \<Rightarrow> custom_handler \<Rightarrow> custom_handler" where
  "handler_WithGroup name h =
     h\<lparr>hd_group := (if hd_group h \<noteq> '''' then hd_group h @ ''.'' @ name else name)\<rparr>"

subsection \<open>What reaches the custom logger\<close>

lemma method_of_mono: "l \<le> l' \<Longrightarrow> method_of l \<le> method_of l'"
  by (auto simp: method_of_def less_eq_log_method_def)

lemma flatten_attrs_append: "flatten_attrs (as @ bs) = flatten_attrs as @ flatten_attrs bs"
  by (simp add: flatten_attrs_def)

lemma flatten_attrs_length: "length (flatten_attrs as) = 2 * length as"
  by (induction as) (auto simp: flatten_attrs_def)

text \<open>Attributes given in steps arrive as if given at once, and before the record's.\<close>

lemma handle_WithAttrs:
  "handler_Handle (handler_WithAttrs bs (handler_WithAttrs as h)) r = handler_Handle (handler_WithAttrs (as @ bs) h) r"
  by (simp add: handler_Handle_def handler_WithAttrs_def)

lemma handle_WithAttrs_record:
  "handler_Handle (handler_WithAttrs as h) r =
     handler_Handle h (r\<lparr>sr_attrs := as @ sr_attrs r\<rparr>)"
  by (simp add: handler_Handle_def handler_WithAttrs_def flatten_attrs_append)

text \<open>A group leaves no trace: its name is kept in the handler and never read.\<close>

lemma handle_WithGroup: "handler_Handle (handler_WithGroup g h) r = handler_Handle h r"
  by (simp add: handler_Handle_def handler_WithGroup_def)

end
