(* ===== verification/Singleflight.thy ===== *)
theory Singleflight
  imports Retry Request_Policies
begin

section \<open>The singleflight group: \<open>singleflight.go\<close>\<close>

text \<open>
  \<open>build_key\<close> is \<open>buildKey\<close>; \<open>sha\<close> stands for the first eight bytes of \<open>sha256.Sum256\<close>. The group is a
  transition system: a step is one section of \<open>Execute\<close> under the lock, or one operation on a call's
  wait group. A call is named by the caller that leads it, which creates one call only. What the
  leader writes into its call is read by others only after the wait group is done, so the writes
  and the first \<open>Done\<close> are one step.

  A wait group is its counter. \<open>Wait\<close> passes when the counter is zero; a caller parked in \<open>Wait\<close> is
  released by the \<open>Done\<close> that brings it to zero, and panics if it finds the counter changed when it
  runs; a \<open>Done\<close> that makes the counter negative panics.

  The lemmas show that calls that do not outlive the time to live are not duplicated, that callers
  share the outcome of the call they join, and what a panic of the wrapped policy leaves behind.
\<close>

subsection \<open>Keys\<close>

definition keyless_methods :: "string list" where
  "keyless_methods = [MethodGet, MethodHead, MethodOptions, MethodDelete]"

definition body_key :: "(bytes \<Rightarrow> bytes) \<Rightarrow> string \<Rightarrow> bytes \<Rightarrow> string" where
  "body_key sha base bs = base @ '' body:'' @ hex_encode (sha bs)"

text \<open>\<open>req.Body\<close>, \<open>GetBody\<close> and \<open>ContentLength\<close> set to known bytes.\<close>

definition set_known_body :: "nat \<Rightarrow> bytes \<Rightarrow> unit prog" where
  "set_known_body req bs =
     bind (set_body req bs) (\<lambda>_.
     set_request req (\<lambda>r. r\<lparr>rq_get_body := Some bs, rq_content_length := int (length bs)\<rparr>))"

definition build_key :: "(bytes \<Rightarrow> bytes) \<Rightarrow> int \<Rightarrow> nat \<Rightarrow> (go_error + string) prog" where
  "build_key sha maxBodySize req =
     bind (get (\<lambda>w. w_requests w req)) (\<lambda>rq.
       let base = rq_method rq @ '' '' @ rq_url rq in
       case rq_body rq of
         None \<Rightarrow> return (Inr base)
       | Some i \<Rightarrow>
           if rq_method rq \<in> set keyless_methods then return (Inr base)
           else if maxBodySize > 0 then
             bind (read_limited i (wrap64 (maxBodySize + 1))) (\<lambda>(bs, err).
               case err of
                 Some e \<Rightarrow> return (Inl e)
               | None \<Rightarrow>
                   bind (close_body i) (\<lambda>_.
                   if int (length bs) > maxBodySize
                   then bind (set_body req bs) (\<lambda>_.
                        bind (set_request req (\<lambda>r. r\<lparr>rq_content_length := int (length bs)\<rparr>)) (\<lambda>_.
                        return (Inr base)))
                   else bind (set_known_body req bs) (\<lambda>_. return (Inr (body_key sha base bs)))))
           else
             bind (read_all i) (\<lambda>(bs, err).
               case err of
                 Some e \<Rightarrow> return (Inl e)
               | None \<Rightarrow>
                   bind (close_body i) (\<lambda>_.
                   bind (set_known_body req bs) (\<lambda>_. return (Inr (body_key sha base bs))))))"

lemma hex_encode_inject_len:
  "length a = length b \<Longrightarrow> hex_encode a = hex_encode b \<longleftrightarrow> a = b"
  using hex_encode_inject by blast

lemma body_key_inject:
  assumes "length (sha a) = length (sha b)"
  shows "body_key sha x a = body_key sha y b \<longleftrightarrow> x = y \<and> sha a = sha b"
proof
  assume "body_key sha x a = body_key sha y b"
  then have "x @ '' body:'' @ hex_encode (sha a) = y @ '' body:'' @ hex_encode (sha b)"
    by (simp add: body_key_def)
  moreover have "length ('' body:'' @ hex_encode (sha a)) = length ('' body:'' @ hex_encode (sha b))"
    using assms by (simp add: hex_encode_length)
  ultimately have "x = y" "'' body:'' @ hex_encode (sha a) = '' body:'' @ hex_encode (sha b)"
    by (metis append_eq_append_conv)+
  then show "x = y \<and> sha a = sha b"
    using hex_encode_inject assms by simp
qed (simp add: body_key_def)

lemma build_key_bodyless:
  "rq_body (w_requests w req) = None \<or> rq_method (w_requests w req) \<in> set keyless_methods \<Longrightarrow>
   build_key sha m req w = (Returned (Inr (rq_method (w_requests w req) @ '' '' @ rq_url (w_requests w req))), w)"
  by (auto simp: build_key_def return_def Let_def split: option.split)

lemma set_body_bytes:
  "\<exists>w'. set_body req bs w = (Returned (), w') \<and> body_bytes w' req = bs \<and>
     rq_method (w_requests w' req) = rq_method (w_requests w req) \<and>
     rq_url (w_requests w' req) = rq_url (w_requests w req)"
  by (simp add: set_body_def new_bytes_reader_def alloc_reader_def set_request_def modify_def bind_def
      Let_def body_bytes_def bytes_reader_def)

lemma set_request_bytes:
  assumes "\<And>r. rq_body (f r) = rq_body r" "\<And>r. rq_method (f r) = rq_method r" "\<And>r. rq_url (f r) = rq_url r"
  shows "\<exists>w'. set_request req f w = (Returned (), w') \<and> body_bytes w' req = body_bytes w req \<and>
     rq_method (w_requests w' req) = rq_method (w_requests w req) \<and>
     rq_url (w_requests w' req) = rq_url (w_requests w req)"
  using assms by (simp add: set_request_def modify_def body_bytes_def split: option.split)

text \<open>A body within the limit is part of the key, and the request keeps its bytes.\<close>

lemma build_key_body:
  assumes body: "rq_body (w_requests w req) = Some i" "plain_body w i"
    and meth: "rq_method (w_requests w req) \<notin> set keyless_methods"
    and fits: "m \<le> 0 \<or> (int (length (body_bytes w req)) \<le> m \<and> m < max_int64)"
  shows "\<exists>w'. build_key sha m req w = (Returned (Inr (body_key sha
      (rq_method (w_requests w req) @ '' '' @ rq_url (w_requests w req)) (body_bytes w req))), w') \<and>
    body_bytes w' req = body_bytes w req"
proof -
  let ?bs = "rd_data (w_readers w i)" and ?base = "rq_method (w_requests w req) @ '' '' @ rq_url (w_requests w req)"
  have bs: "body_bytes w req = ?bs" by (simp add: body_bytes_def body(1))
  obtain w1 where read: "(if m > 0 then read_limited i (wrap64 (m + 1)) else read_all i) w = (Returned (?bs, None), w1)"
    using body(2) fits bs by (auto simp: read_limited_def read_all_def plain_body_def Let_def wrap64_id)
  obtain w2 where close: "close_body i w1 = (Returned (), w2)" by (simp add: close_body_def modify_def)
  obtain w3 where w3: "set_body req ?bs w2 = (Returned (), w3)" "body_bytes w3 req = ?bs"
    using set_body_bytes by blast
  obtain w4 where w4: "set_request req (\<lambda>r. r\<lparr>rq_get_body := Some ?bs, rq_content_length := int (length ?bs)\<rparr>) w3
      = (Returned (), w4)" "body_bytes w4 req = ?bs"
    using set_request_bytes [of "\<lambda>r. r\<lparr>rq_get_body := Some ?bs, rq_content_length := int (length ?bs)\<rparr>" req w3] w3(2)
    by auto
  have known: "set_known_body req ?bs w2 = (Returned (), w4)"
    using w3(1) w4(1) by (simp add: set_known_body_def)
  have "build_key sha m req w = (Returned (Inr (body_key sha ?base ?bs)), w4)"
  proof (cases "m > 0")
    case True
    then have "\<not> int (length ?bs) > m" using fits bs by simp
    with True read close known show ?thesis
      using body(1) meth by (simp add: build_key_def Let_def return_def)
  next
    case False
    with read close known show ?thesis
      using body(1) meth by (simp add: build_key_def Let_def return_def)
  qed
  with w4(2) bs show ?thesis by auto
qed

text \<open>A body above the limit is cut to one byte more than it, and is no part of the key.\<close>

lemma build_key_oversize:
  assumes body: "rq_body (w_requests w req) = Some i" "plain_body w i"
    and meth: "rq_method (w_requests w req) \<notin> set keyless_methods"
    and big: "0 < m" "m < int (length (body_bytes w req))" "m < max_int64"
  shows "\<exists>w'. build_key sha m req w =
      (Returned (Inr (rq_method (w_requests w req) @ '' '' @ rq_url (w_requests w req))), w') \<and>
    body_bytes w' req = take (nat m + 1) (body_bytes w req)"
proof -
  let ?bs = "take (nat (m + 1)) (rd_data (w_readers w i))"
  have bs: "body_bytes w req = rd_data (w_readers w i)" by (simp add: body_bytes_def body(1))
  obtain w1 where read: "read_limited i (wrap64 (m + 1)) w = (Returned (?bs, None), w1)"
    using body(2) big bs by (simp add: read_limited_def plain_body_def Let_def wrap64_id)
  obtain w2 where close: "close_body i w1 = (Returned (), w2)" by (simp add: close_body_def modify_def)
  obtain w3 where w3: "set_body req ?bs w2 = (Returned (), w3)" "body_bytes w3 req = ?bs"
    using set_body_bytes by blast
  obtain w4 where w4: "set_request req (\<lambda>r. r\<lparr>rq_content_length := int (length ?bs)\<rparr>) w3 = (Returned (), w4)"
    "body_bytes w4 req = ?bs"
    using set_request_bytes [of "\<lambda>r. r\<lparr>rq_content_length := int (length ?bs)\<rparr>" req w3] w3(2) by auto
  have len: "int (length ?bs) > m" using big bs by simp
  have "build_key sha m req w = (Returned (Inr (rq_method (w_requests w req) @ '' '' @ rq_url (w_requests w req))), w4)"
    using body(1) meth big(1) len read close w3(1) w4(1)
    by (simp add: build_key_def Let_def return_def)
  moreover have "nat (m + 1) = nat m + 1" using big(1) by simp
  ultimately show ?thesis using w4(2) bs by auto
qed

subsection \<open>The group\<close>

definition singleflightTTL :: duration where
  "singleflightTTL = 60 * second"

record sf_call =
  sc_val :: "response option"
  sc_err :: "go_error option"
  sc_created :: instant
  sc_bodyBytes :: bytes
  sc_wg :: int

datatype sf_pc =
    SfStart
  | SfLeading                  \<comment> \<open>inside \<open>next\<close>\<close>
  | SfFinished                 \<comment> \<open>after \<open>Done\<close>, before the key is deleted\<close>
  | SfRecovered                \<comment> \<open>after the deferred function, before the second \<open>Done\<close>\<close>
  | SfCrashed string           \<comment> \<open>the panic leaves \<open>Execute\<close>\<close>
  | SfJoined nat               \<comment> \<open>has unlocked, before \<open>Wait\<close>\<close>
  | SfParked nat
  | SfReleased nat
  | SfDone nat "(response \<times> bytes) option \<times> go_error option"

record sf_sys =
  sf_calls :: "string \<Rightarrow> nat option"
  sf_call_of :: "nat \<Rightarrow> sf_call"
  sf_pc :: "nat \<Rightarrow> sf_pc"
  sf_now :: instant

datatype sf_label =
    SfClock duration
  | SfJoin nat nat
  | SfLead nat duration
  | SfReturn nat reply bytes   \<comment> \<open>what \<open>next\<close> returned and what could be read of the body\<close>
  | SfPanic nat string
  | SfDoneAgain nat
  | SfForget nat
  | SfPark nat
  | SfPass nat
  | SfReceive nat

definition new_call :: "instant \<Rightarrow> sf_call" where
  "new_call t = \<lparr>sc_val = None, sc_err = None, sc_created = t, sc_bodyBytes = [], sc_wg = 1\<rparr>"

text \<open>The body is read only when there is a response with a body and no error.\<close>

definition finish_call :: "reply \<Rightarrow> bytes \<Rightarrow> sf_call \<Rightarrow> sf_call" where
  "finish_call r bs c = c\<lparr>sc_val := fst r, sc_err := snd r,
     sc_bodyBytes := (case fst r of
         None \<Rightarrow> []
       | Some x \<Rightarrow> if rs_body x \<noteq> None \<and> snd r = None then bs else []),
     sc_wg := sc_wg c - 1\<rparr>"

definition panic_call :: "string \<Rightarrow> sf_call \<Rightarrow> sf_call" where
  "panic_call v c = c\<lparr>sc_err := Some (ErrorString (''ambatukam: singleflight panic: '' @ v)), sc_wg := sc_wg c - 1\<rparr>"

text \<open>\<open>Done\<close> that reaches zero releases the callers parked on the call.\<close>

definition release :: "nat \<Rightarrow> sf_call \<Rightarrow> (nat \<Rightarrow> sf_pc) \<Rightarrow> nat \<Rightarrow> sf_pc" where
  "release k c pcs j = (if sc_wg c = 0 \<and> pcs j = SfParked k then SfReleased k else pcs j)"

text \<open>The end of \<open>Execute\<close>, for the leader and for those that joined.\<close>

definition sf_outcome :: "nat \<Rightarrow> sf_call \<Rightarrow> sf_pc" where
  "sf_outcome k c = (case sc_err c of
       Some e \<Rightarrow> SfDone k (None, Some e)
     | None \<Rightarrow> (case sc_val c of
           None \<Rightarrow> SfCrashed nil_dereference
         | Some r \<Rightarrow> SfDone k (Some (r\<lparr>rs_content_length := int (length (sc_bodyBytes c))\<rparr>, sc_bodyBytes c), None)))"

definition stale :: "sf_sys \<Rightarrow> nat \<Rightarrow> bool" where
  "stale s k \<longleftrightarrow> sf_now s - sc_created (sf_call_of s k) > singleflightTTL"

text \<open>\<open>d\<close> is the time between the two readings of the clock in the locked section.\<close>

definition sf_lead :: "string \<Rightarrow> nat \<Rightarrow> duration \<Rightarrow> sf_sys \<Rightarrow> sf_sys" where
  "sf_lead key i d s = s\<lparr>sf_now := sf_now s + d, sf_calls := (sf_calls s)(key \<mapsto> i),
     sf_call_of := (sf_call_of s)(i := new_call (sf_now s + d)), sf_pc := (sf_pc s)(i := SfLeading)\<rparr>"

definition sf_settle :: "nat \<Rightarrow> sf_call \<Rightarrow> sf_pc \<Rightarrow> sf_sys \<Rightarrow> sf_sys" where
  "sf_settle i c pc s = s\<lparr>sf_call_of := (sf_call_of s)(i := c),
     sf_pc := (release i c (sf_pc s))(i := pc)\<rparr>"

inductive sf_step :: "(nat \<Rightarrow> string) \<Rightarrow> sf_sys \<Rightarrow> sf_label \<Rightarrow> sf_sys \<Rightarrow> bool"
  for key :: "nat \<Rightarrow> string"
where
  sf_clock: "0 \<le> d \<Longrightarrow> sf_step key s (SfClock d) (s\<lparr>sf_now := sf_now s + d\<rparr>)"
| sf_join: "sf_pc s i = SfStart \<Longrightarrow> sf_calls s (key i) = Some k \<Longrightarrow> \<not> stale s k \<Longrightarrow>
    sf_step key s (SfJoin i k) (s\<lparr>sf_pc := (sf_pc s)(i := SfJoined k)\<rparr>)"
| sf_leads: "sf_pc s i = SfStart \<Longrightarrow> 0 \<le> d \<Longrightarrow>
    (case sf_calls s (key i) of None \<Rightarrow> True | Some k \<Rightarrow> stale s k) \<Longrightarrow>
    sf_step key s (SfLead i d) (sf_lead (key i) i d s)"
| sf_return: "sf_pc s i = SfLeading \<Longrightarrow>
    sf_step key s (SfReturn i r bs) (sf_settle i (finish_call r bs (sf_call_of s i)) SfFinished s)"
| sf_panic: "sf_pc s i = SfLeading \<Longrightarrow>
    sf_step key s (SfPanic i v) (sf_settle i (panic_call v (sf_call_of s i)) SfRecovered s)"
| sf_done_again: "sf_pc s i = SfRecovered \<Longrightarrow> c = (sf_call_of s i)\<lparr>sc_wg := sc_wg (sf_call_of s i) - 1\<rparr> \<Longrightarrow>
    sf_step key s (SfDoneAgain i)
      (sf_settle i c (if sc_wg c < 0 then SfCrashed ''sync: negative WaitGroup counter'' else SfFinished) s)"
| sf_forget: "sf_pc s i = SfFinished \<Longrightarrow>
    sf_step key s (SfForget i) (s\<lparr>sf_calls := (sf_calls s)(key i := None),
      sf_pc := (sf_pc s)(i := sf_outcome i (sf_call_of s i))\<rparr>)"
| sf_park: "sf_pc s i = SfJoined k \<Longrightarrow> sc_wg (sf_call_of s k) \<noteq> 0 \<Longrightarrow>
    sf_step key s (SfPark i) (s\<lparr>sf_pc := (sf_pc s)(i := SfParked k)\<rparr>)"
| sf_pass: "sf_pc s i = SfJoined k \<Longrightarrow> sc_wg (sf_call_of s k) = 0 \<Longrightarrow>
    sf_step key s (SfPass i) (s\<lparr>sf_pc := (sf_pc s)(i := sf_outcome k (sf_call_of s k))\<rparr>)"
| sf_receive: "sf_pc s i = SfReleased k \<Longrightarrow>
    sf_step key s (SfReceive i) (s\<lparr>sf_pc := (sf_pc s)(i :=
      (if sc_wg (sf_call_of s k) = 0 then sf_outcome k (sf_call_of s k)
       else SfCrashed ''sync: WaitGroup is reused before previous Wait has returned''))\<rparr>)"

inductive_cases sf_leadE: "sf_step key s (SfLead i d) s'"
inductive_cases sf_receiveE: "sf_step key s (SfReceive i) s'"
inductive_simps sf_forget_iff: "sf_step key s (SfForget i) s'"

definition sf_init :: "sf_sys \<Rightarrow> bool" where
  "sf_init s \<longleftrightarrow> sf_calls s = (\<lambda>_. None) \<and> sf_pc s = (\<lambda>_. SfStart)"

lemmas sf_ops [state_defs] = sf_lead_def sf_settle_def release_def finish_call_def panic_call_def new_call_def

lemma sf_outcome_cases:
  "sf_outcome k c = SfCrashed nil_dereference \<or> (\<exists>x. sf_outcome k c = SfDone k x)"
  by (auto simp: sf_outcome_def split: option.split)

lemma sf_outcome_wg [simp]: "sf_outcome k (c\<lparr>sc_wg := n\<rparr>) = sf_outcome k c"
  by (auto simp: sf_outcome_def split: option.split)

lemma sf_outcome_not [simp]:
  "sf_outcome k c \<noteq> SfStart" "sf_outcome k c \<noteq> SfLeading" "sf_outcome k c \<noteq> SfRecovered"
  "sf_outcome k c \<noteq> SfFinished" "sf_outcome k c \<noteq> SfJoined j" "sf_outcome k c \<noteq> SfParked j"
  "sf_outcome k c \<noteq> SfReleased j"
  by (auto simp: sf_outcome_def split: option.splits)

subsection \<open>No duplicates while calls are prompt\<close>

text \<open>A caller whose call is in the table until it deletes it.\<close>

definition sf_active :: "sf_pc \<Rightarrow> bool" where
  "sf_active pc \<longleftrightarrow> pc \<in> {SfLeading, SfFinished, SfRecovered}"

definition timely :: "sf_sys \<Rightarrow> bool" where
  "timely s \<longleftrightarrow> (\<forall>i. sf_active (sf_pc s i) \<longrightarrow> \<not> stale s i)"

definition prompt_step :: "(nat \<Rightarrow> string) \<Rightarrow> sf_sys \<Rightarrow> sf_label \<Rightarrow> sf_sys \<Rightarrow> bool" where
  "prompt_step key s l t \<longleftrightarrow> timely s \<and> sf_step key s l t"

definition sf_owned :: "(nat \<Rightarrow> string) \<Rightarrow> sf_sys \<Rightarrow> bool" where
  "sf_owned key s \<longleftrightarrow> (\<forall>i. sf_active (sf_pc s i) \<longrightarrow> sf_calls s (key i) = Some i)"

lemma sf_owned_unique:
  "sf_owned key s \<Longrightarrow> sf_active (sf_pc s i) \<Longrightarrow> sf_active (sf_pc s j) \<Longrightarrow> key i = key j \<Longrightarrow> i = j"
  unfolding sf_owned_def by (metis option.inject)

lemma sf_active_outcome [simp]: "\<not> sf_active (sf_outcome k c)"
  using sf_outcome_cases [of k c] by (auto simp: sf_active_def)

lemma sf_active_simps [simp]:
  "sf_active SfLeading" "sf_active SfFinished" "sf_active SfRecovered" "\<not> sf_active SfStart"
  "\<not> sf_active (SfCrashed v)" "\<not> sf_active (SfJoined k)" "\<not> sf_active (SfParked k)"
  "\<not> sf_active (SfReleased k)" "\<not> sf_active (SfDone k x)"
  by (simp_all add: sf_active_def)

lemma sf_active_release [simp]: "sf_active (release k c pcs j) = sf_active (pcs j)"
  by (simp add: release_def)

lemma sf_settle_owned:
  assumes "sf_owned key s" and "sf_active (sf_pc s i)"
  shows "sf_owned key (sf_settle i c pc s)"
  using assms by (simp add: sf_owned_def sf_settle_def)

lemma prompt_owned:
  assumes "sf_owned key s" and "prompt_step key s l t"
  shows "sf_owned key t"
proof -
  have timely: "timely s" and step: "sf_step key s l t"
    using assms(2) by (simp_all add: prompt_step_def)
  from step show ?thesis
  proof cases
    case (sf_leads i d)
    have "\<not> sf_active (sf_pc s j)" if "key j = key i" for j
      using sf_leads(5) assms(1) timely that by (force simp: sf_owned_def timely_def split: option.splits)
    with sf_leads assms(1) show ?thesis by (auto simp: sf_owned_def sf_lead_def)
  next
    case (sf_forget i)
    have "key j \<noteq> key i" if "sf_active (sf_pc s j)" "j \<noteq> i" for j
      using sf_owned_unique [OF assms(1) that(1), of i] sf_forget(3) that(2) by auto
    with sf_forget assms(1) show ?thesis by (auto simp: sf_owned_def)
  next
    case (sf_return i r bs)
    then show ?thesis using sf_settle_owned [OF assms(1)] by simp
  next
    case (sf_panic i v)
    then show ?thesis using sf_settle_owned [OF assms(1)] by simp
  next
    case (sf_done_again i c)
    then show ?thesis using sf_settle_owned [OF assms(1)] by simp
  qed (use assms(1) in \<open>auto simp: sf_owned_def\<close>)
qed

interpretation prompt: invariant_system sf_init "prompt_step key" "sf_owned key" for key
  by unfold_locales (simp add: sf_owned_def sf_init_def, rule prompt_owned)

subsection \<open>Callers share the outcome of the call they join\<close>

definition sf_shared :: "sf_sys \<Rightarrow> bool" where
  "sf_shared s \<longleftrightarrow>
     (\<forall>i. sf_pc s i = SfLeading \<longrightarrow> sc_wg (sf_call_of s i) = 1) \<and>
     (\<forall>i. sf_pc s i = SfRecovered \<longrightarrow> sc_wg (sf_call_of s i) = 0) \<and>
     (\<forall>key k. sf_calls s key = Some k \<longrightarrow> sf_pc s k \<noteq> SfStart) \<and>
     (\<forall>i k. sf_pc s i \<in> {SfJoined k, SfParked k, SfReleased k} \<longrightarrow> sf_pc s k \<noteq> SfStart) \<and>
     (\<forall>i k x. sf_pc s i = SfDone k x \<longrightarrow>
        sf_pc s k \<notin> {SfStart, SfLeading} \<and> sf_outcome k (sf_call_of s k) = SfDone k x)"

text \<open>Setting a caller that is past its start to a crash, or to the outcome of a settled call.\<close>

lemma shared_crash:
  "sf_shared s \<Longrightarrow> sf_shared (s\<lparr>sf_pc := (sf_pc s)(i := SfCrashed v)\<rparr>)"
  by (auto simp: sf_shared_def)

lemma shared_answer:
  assumes "sf_shared s" and "sf_pc s k \<notin> {SfStart, SfLeading}"
  shows "sf_shared (s\<lparr>sf_pc := (sf_pc s)(i := sf_outcome k (sf_call_of s k))\<rparr>)"
  using sf_outcome_cases [of k "sf_call_of s k"]
proof
  assume "sf_outcome k (sf_call_of s k) = SfCrashed nil_dereference"
  with shared_crash [OF assms(1)] show ?thesis by simp
next
  assume "\<exists>x. sf_outcome k (sf_call_of s k) = SfDone k x"
  then obtain x where x: "sf_outcome k (sf_call_of s k) = SfDone k x" ..
  with assms have "sf_shared (s\<lparr>sf_pc := (sf_pc s)(i := SfDone k x)\<rparr>)" by (auto simp: sf_shared_def)
  with x show ?thesis by simp
qed

lemma shared_forget: "sf_shared s \<Longrightarrow> sf_shared (s\<lparr>sf_calls := (sf_calls s)(key := None)\<rparr>)"
  by (simp add: sf_shared_def)

lemma shared_zero:
  "sf_shared s \<Longrightarrow> sf_pc s i \<in> {SfJoined k, SfParked k, SfReleased k} \<Longrightarrow> sc_wg (sf_call_of s k) = 0 \<Longrightarrow>
   sf_pc s k \<notin> {SfStart, SfLeading}"
  by (auto simp: sf_shared_def)

lemma sf_step_shared:
  assumes "sf_shared s" and "sf_step key s l t"
  shows "sf_shared t"
  using assms(2)
proof cases
  case (sf_clock d)
  with assms(1) show ?thesis by (simp add: sf_shared_def)
next
  case (sf_join i k)
  with assms(1) show ?thesis by (auto simp: sf_shared_def)
next
  case (sf_leads i d)
  with assms(1) show ?thesis by (auto simp: sf_shared_def sf_lead_def new_call_def)
next
  case (sf_return i r bs)
  with assms(1) show ?thesis by (auto simp: sf_shared_def sf_settle_def release_def finish_call_def split: if_splits)
next
  case (sf_panic i v)
  with assms(1) show ?thesis by (auto simp: sf_shared_def sf_settle_def release_def panic_call_def split: if_splits)
next
  case (sf_done_again i c)
  with assms(1) show ?thesis by (auto simp: sf_shared_def sf_settle_def release_def split: if_splits)
next
  case (sf_forget i)
  then show ?thesis
    using shared_answer [OF shared_forget [OF assms(1)], of "key i" i i] by simp
next
  case (sf_park i k)
  with assms(1) show ?thesis by (auto simp: sf_shared_def split: if_splits)
next
  case (sf_pass i k)
  then show ?thesis
    using shared_answer [OF assms(1) shared_zero [OF assms(1)], of i k] by simp
next
  case (sf_receive i k)
  then show ?thesis
    using shared_answer [OF assms(1) shared_zero [OF assms(1)], of i k] shared_crash [OF assms(1)] by simp
qed

interpretation shared: invariant_system sf_init "sf_step key" sf_shared for key
  by unfold_locales (simp add: sf_shared_def sf_init_def, rule sf_step_shared)

lemma sf_shared_done: "sf_shared s \<Longrightarrow> sf_pc s i = SfDone k x \<Longrightarrow> sf_outcome k (sf_call_of s k) = SfDone k x"
  unfolding sf_shared_def by blast

subsection \<open>What a panic leaves behind\<close>

text \<open>
  A caller waits on a call whose leader has left \<open>Execute\<close> with a panic and whose wait group is
  below zero: nobody will touch that wait group again.
\<close>

definition sf_stuck :: "nat \<Rightarrow> nat \<Rightarrow> sf_sys \<Rightarrow> bool" where
  "sf_stuck i j s \<longleftrightarrow> (\<exists>v. sf_pc s i = SfCrashed v) \<and> sc_wg (sf_call_of s i) < 0 \<and>
     sf_pc s j \<in> {SfJoined i, SfParked i}"

lemma sf_step_stuck: "sf_stuck i j s \<Longrightarrow> sf_step key s l t \<Longrightarrow> sf_stuck i j t"
  by (erule sf_step.cases)
    (auto simp: sf_stuck_def sf_lead_def sf_settle_def release_def split: if_splits)

interpretation stuck: trap_system "sf_step key" "sf_stuck i j" for key i j
  by unfold_locales (rule sf_step_stuck)

lemma sf_panic_sticks:
  assumes lead: "sf_pc s i = SfLeading" "sc_wg (sf_call_of s i) = 1" "sf_calls s (key i) = Some i"
    and other: "sf_pc s j = SfStart" "key j = key i" "\<not> stale s i"
  shows "\<exists>t. run (sf_step key) s [SfPanic i v, SfDoneAgain i, SfJoin j i] t \<and> sf_stuck i j t"
proof -
  let ?c = "panic_call v (sf_call_of s i)"
  let ?d = "?c\<lparr>sc_wg := sc_wg ?c - 1\<rparr>"
  let ?s1 = "sf_settle i ?c SfRecovered s"
  let ?s2 = "sf_settle i ?d (SfCrashed ''sync: negative WaitGroup counter'') ?s1"
  let ?s3 = "?s2\<lparr>sf_pc := (sf_pc ?s2)(j := SfJoined i)\<rparr>"
  have ij: "i \<noteq> j" using lead(1) other(1) by auto
  have "sf_step key s (SfPanic i v) ?s1" by (rule sf_panic) (rule lead(1))
  moreover have "sf_step key ?s1 (SfDoneAgain i) ?s2"
    using sf_done_again [of ?s1 i ?d key] lead(2) by (simp add: sf_settle_def panic_call_def)
  moreover have "sf_step key ?s2 (SfJoin j i) ?s3"
    using lead other ij
    by (intro sf_join) (simp_all add: sf_settle_def release_def stale_def panic_call_def)
  moreover have "sf_stuck i j ?s3"
    using lead(2) ij by (simp add: sf_stuck_def sf_settle_def panic_call_def)
  ultimately show ?thesis by (meson run_Cons run_Nil)
qed

text \<open>Once a leader has panicked, it can do nothing but panic again.\<close>

lemma sf_recovered_only:
  assumes "sf_pc s i = SfRecovered" and "sc_wg (sf_call_of s i) = 0" and "sf_step key s l t" and "sf_pc t i \<noteq> SfRecovered"
  shows "l = SfDoneAgain i \<and> sf_pc t i = SfCrashed ''sync: negative WaitGroup counter''"
  using assms(3,1,2,4) by cases (auto simp: sf_lead_def sf_settle_def release_def split: if_splits)

subsection \<open>An eviction that goes wrong\<close>

text \<open>
  A leader that outlives the time to live is replaced in the table, and at its end deletes the key
  of its successor; the next caller then leads a second call beside it, however young.
\<close>

lemma sf_stale_duplicates:
  assumes "sf_init s" and "key 0 = key 1" and "key 1 = key 2"
  shows "\<exists>t. run (sf_step key) s
      [SfLead 0 0, SfClock (61 * second), SfLead 1 0, SfReturn 0 r bs, SfForget 0, SfLead 2 0] t \<and>
    sf_pc t 1 = SfLeading \<and> sf_pc t 2 = SfLeading \<and>
    sc_created (sf_call_of t 1) = sc_created (sf_call_of t 2)"
proof -
  let ?a = "sf_lead (key 0) 0 0 s"
  let ?b = "?a\<lparr>sf_now := sf_now ?a + 61 * second\<rparr>"
  let ?c = "sf_lead (key 1) 1 0 ?b"
  let ?d = "sf_settle 0 (finish_call r bs (sf_call_of ?c 0)) SfFinished ?c"
  let ?e = "?d\<lparr>sf_calls := (sf_calls ?d)(key 0 := None), sf_pc := (sf_pc ?d)(0 := sf_outcome 0 (sf_call_of ?d 0))\<rparr>"
  let ?f = "sf_lead (key 2) 2 0 ?e"
  have init: "sf_calls s = (\<lambda>_. None)" "sf_pc s = (\<lambda>_. SfStart)" using assms(1) by (simp_all add: sf_init_def)
  have "sf_step key s (SfLead 0 0) ?a" by (rule sf_leads) (simp_all add: init)
  moreover have "sf_step key ?a (SfClock (61 * second)) ?b" by (rule sf_clock) simp
  moreover have "sf_step key ?b (SfLead 1 0) ?c"
    by (rule sf_leads) (simp_all add: sf_lead_def init assms(2) stale_def new_call_def singleflightTTL_def)
  moreover have "sf_step key ?c (SfReturn 0 r bs) ?d" by (rule sf_return) (simp add: sf_lead_def)
  moreover have "sf_step key ?d (SfForget 0) ?e" by (rule sf_forget) (simp add: sf_settle_def)
  moreover have "sf_step key ?e (SfLead 2 0) ?f"
    using assms(2,3) by (intro sf_leads) (simp_all add: sf_lead_def sf_settle_def release_def init)
  moreover have "sf_pc ?f 1 = SfLeading" "sf_pc ?f 2 = SfLeading"
    "sc_created (sf_call_of ?f 1) = sc_created (sf_call_of ?f 2)"
    by (simp_all add: sf_lead_def sf_settle_def release_def new_call_def)
  ultimately show ?thesis by (meson run_Cons run_Nil)
qed

subsection \<open>A run\<close>

lemma sf_example_run:
  fixes s :: sf_sys
  defines "s \<equiv> \<lparr>sf_calls = \<lambda>_. None, sf_call_of = \<lambda>_. new_call 0, sf_pc = \<lambda>_. SfStart, sf_now = 0\<rparr>"
  obtains t where "run (sf_step (\<lambda>_. ''k'')) s [SfLead 0 0, SfReturn 0 (None, Some e) [], SfForget 0] t"
    and "sf_pc t 0 = SfDone 0 (None, Some e)"
proof -
  let ?a = "sf_lead ''k'' 0 0 s"
  let ?b = "sf_settle 0 (finish_call (None, Some e) [] (sf_call_of ?a 0)) SfFinished ?a"
  let ?c = "?b\<lparr>sf_calls := (sf_calls ?b)(''k'' := None), sf_pc := (sf_pc ?b)(0 := sf_outcome 0 (sf_call_of ?b 0))\<rparr>"
  have "sf_step (\<lambda>_. ''k'') s (SfLead 0 0) ?a" by (rule sf_leads) (simp_all add: s_def)
  moreover have "sf_step (\<lambda>_. ''k'') ?a (SfReturn 0 (None, Some e) []) ?b"
    by (rule sf_return) (simp add: sf_lead_def)
  moreover have "sf_step (\<lambda>_. ''k'') ?b (SfForget 0) ?c"
    using sf_forget [of ?b 0 "\<lambda>_. ''k''"] by (simp add: sf_settle_def)
  moreover have "sf_pc ?c 0 = SfDone 0 (None, Some e)"
    by (simp add: sf_settle_def sf_lead_def finish_call_def sf_outcome_def)
  ultimately show ?thesis using that by blast
qed

end
