(* ===== verification/Spec2Isabelle.thy ===== *)
theory Spec2Isabelle
  imports Budget_Conc Cache_Conc Stats_Conc Cells Circuit_Conc Adaptive Client_Facts Health Json Logging Singleflight
begin

text \<open>
  A verification of \<open>ambatukam\<close>, a Go client for HTTP with resilience policies.

  \<^bold>\<open>The program.\<close> A \<open>Client\<close> (\<open>client.go\<close>, \<open>options.go\<close>, \<open>preset.go\<close>) holds a list of policies and builds a
  chain from them (\<open>policy.go\<close>): each policy's \<open>Execute\<close> gets a request and the rest of the chain as a
  function, with \<open>http.Client.Do\<close> innermost. The policies are retry with backoff and a budget
  (\<open>retry.go\<close>, \<open>backoff.go\<close>, \<open>budget.go\<close>), circuit breaker (\<open>circuit.go\<close>), timeouts (\<open>timeout.go\<close>,
  \<open>adaptive.go\<close>), fallback (\<open>fallback.go\<close>), cache (\<open>cache.go\<close>), bulkhead (\<open>bulkhead.go\<close>), rate limiter
  (\<open>ratelimit.go\<close>), singleflight (\<open>singleflight.go\<close>), request identifiers (\<open>requestid.go\<close>), interceptors
  (\<open>interceptor.go\<close>), hooks and a request log (\<open>logging.go\<close>). Around them are errors (\<open>errors.go\<close>),
  metrics and statistics (\<open>metrics.go\<close>, \<open>stats.go\<close>), health checks (\<open>health.go\<close>) and JSON helpers
  (\<open>json.go\<close>).

  \<^bold>\<open>Two kinds of model.\<close> What one request does to the program is a function of an explicit state: a
  \<open>'a prog\<close> takes a \<open>world\<close> (theory \<open>World\<close>) to a result, \<open>Returned\<close>, \<open>Panicked\<close> or \<open>Blocked\<close>, and the
  world after. The world holds the clock; what the environment decides (how far the clock moves,
  which ready case a \<open>select\<close> takes, random numbers, the iteration order of maps, memory
  statistics), as arbitrary streams; the requests, headers and bodies, which the code shares through pointers; the
  cancelled contexts; the fields of the policies; and a trace of metrics, waits and requests sent.
  What several goroutines do to a component is a labelled transition system whose steps are the
  component's atomic sections: the circuit breaker under its lock (\<open>Circuit_Conc\<close>), the retry budget with
  its atomic counters (\<open>Budget_Conc\<close>), the statistics with theirs (\<open>Stats_Conc\<close>), the cache's locked sections (\<open>Cache_Conc\<close>), the rate
  limiter's channel and ticker (\<open>Rate_Limit\<close>), the bulkhead's workers, queues and callers (\<open>Bulkhead\<close>),
  the singleflight group (\<open>Singleflight\<close>). The circuit breaker has both, and \<open>Circuit_Exec\<close> connects
  them: \<open>Execute\<close>, over any sequence of requests, refines \<open>cb_serve\<close>. So has the budget: a caller that
  nobody interrupts runs as \<open>budget_allow\<close>.

  \<^bold>\<open>The theories.\<close>
  \<^item> \<open>Prelude\<close>: widths of integers, wrap-around, runs of transition systems, and the locales for
    invariants, first-in first-out buffers, potentials and traps. \<open>Strconv\<close>: decimal texts.
    \<open>Floats\<close>: \<open>float64\<close> as rationals with an arbitrary rounding.
  \<^item> \<open>Go_Errors\<close>: \<open>errors.go\<close>, with \<open>errors.Is\<close> and \<open>errors.As\<close>. \<open>Http\<close>: contexts, headers, bodies,
    requests and responses.
  \<^item> \<open>Stats\<close>, \<open>Stats_Conc\<close>: \<open>stats.go\<close> and the Prometheus recorder. \<open>World\<close>: the state, sequencing, \<open>defer\<close> and
    \<open>recover\<close>, reading bodies, the wire, recorders and hooks, and the locale \<open>world_order\<close> of relations
    that composition keeps.
  \<^item> \<open>Backoff\<close>, \<open>Budget\<close>, \<open>Budget_Conc\<close>, \<open>Retry\<close>: the strategies with the locale \<open>bounded_backoff\<close>, \<open>Allow\<close>, and
    \<open>RetryPolicy.Execute\<close> as \<open>retry_execute\<close> around \<open>retry_loop\<close>.
  \<^item> \<open>Circuit\<close>, \<open>Circuit_Conc\<close>, \<open>Circuit_Exec\<close>: the sections of the breaker, any interleaving of them,
    and \<open>Execute\<close>.
  \<^item> \<open>Match_Pattern\<close>, \<open>Timeouts\<close>, \<open>Adaptive\<close>: \<open>matchPattern\<close>, the three timeout policies, the percentile.
  \<^item> \<open>Fallback\<close>; \<open>Cache_Store\<close> (the table), \<open>Cache_Exec\<close> (\<open>Execute\<close>) and \<open>Cache_Conc\<close>; \<open>Rate_Limit\<close>; \<open>Bulkhead\<close>;
    \<open>Singleflight\<close>; \<open>Request_Policies\<close> (identifiers, interceptors, hooks, request log); \<open>Logging\<close> (the
    adapter for custom loggers).
  \<^item> \<open>Chain\<close>: a policy as a datatype, \<open>execute\<close>, and the loops that build chains. \<open>Frames\<close>: the locale
    \<open>cell_frame\<close> says what an elementary effect is, and every policy keeps a relation that these keep;
    \<open>frame\<close> is for relations that do not look at the policies' fields, with the clock, the trace, the
    wire and a client's statistics as instances; and the count of requests that a chain sends.
  \<^item> \<open>Client\<close>, \<open>Client_Facts\<close> and \<open>Cells\<close> (the fields of a client's policies stay well-formed): \<open>New\<close>
    with its options and presets, \<open>Do\<close>, the verbs, \<open>Stats\<close>, \<open>Close\<close>;
    \<open>Health\<close>; \<open>Json\<close>.

  \<^bold>\<open>What is shown\<close>, in the order of the components: the breaker trips after exactly its threshold of
  failures in a row, stays open for its period, admits at most its probes, makes no illegal
  transition, and \<open>Execute\<close> refines this; retry returns the first final reply, replays the body,
  counts its attempts, obeys \<open>Retry-After\<close> and stops with its context; waits, budget shares, admitted
  rates, queue lengths, cache sizes and concurrency are bounded; queues are first in first out and
  every request runs once; a cached reply is the latest one stored; timeouts become \<open>ErrTimeout\<close>
  exactly when their own deadline is the reason; the fallback always answers; singleflight calls
  are shared and, while prompt, unique; chains nest and flatten; the fields of
  a client's policies stay well-formed through any sequence of calls of \<open>Do\<close>; the counters are those of the calls; one \<open>Do\<close> sends at most the product
  of its retry policies' attempts. Some properties state what the code does where it does not do
  what it means to: a panic leaves the breaker or the singleflight key stuck, a denied bulkhead request still
  runs, a timeout's cancel makes the body unreadable, successes use up the retry budget, and the
  statistics of a client never see its policies.

  \<^bold>\<open>Bounds and termination.\<close> No fuel is used. \<open>retry_loop\<close> terminates because the attempt approaches the
  number of attempts; \<open>execute\<close> because a chain's policies are smaller than the chain. A wait for
  ever is the value \<open>Blocked\<close>, which only code outside the repository can return. Integers are words
  or integers with \<open>wrap64\<close> at the places where the code can overflow; instants and the durations derived from them do not
  wrap.

  \<^bold>\<open>Parameters.\<close> \<open>http.Client.Do\<close>, hooks, handlers, interceptors, loggers and custom policies are
  arbitrary functions, \<open>url.Parse\<close>, \<open>http.ParseTime\<close>, \<open>encoding/json\<close> and SHA-256 as well. A theorem
  that needs more of one of them says so: \<open>wire\<close> for a server that answers from a script, \<open>steps\<close> and
  \<open>sends_le\<close> for code that leaves a part of the world alone or sends no requests of its own. In a
  chain the bulkhead, the rate limiter and the singleflight group are arbitrary behaviours.

  \<^bold>\<open>Not modelled.\<close> The text of debug and info log lines, which is output only; the example program; tests; the JSON
  text of the health status. The header map of a response is a value, so that the copies of a response handed
  out by the cache and by singleflight share it is not seen; two requests in the same
  chain at the same time are modelled for the seven components with a transition system only.
\<close>

section \<open>The properties\<close>

text \<open>
  C1. Against a server that answers the k-th request with the k-th reply of any script, under a
  context that nothing ends, the retry policy without a budget and a retry hook returns the first
  reply that is not to be retried, unchanged, when it comes within the attempts allowed; it has
  then sent the request once for each reply up to it, every time with the same method, URL and
  body bytes.
\<close>

theorem retry_first_final:
  assumes "wire script next" and "endless c" and "rp_budget p = None"
    and "OnRetry (rp_hooks p) = None" and "bodied script" and "sendable (rp_cfg p) w req"
    and "\<forall>i < j. again p (rq_method (w_requests w req)) (script (length (sent w) + i))"
    and "\<not> again p (rq_method (w_requests w req)) (script (length (sent w) + j))"
    and "int j < attempts_of p"
  shows "fst (retry_execute p c req next w) = Returned (script (length (sent w) + j)) \<and>
    sent (snd (retry_execute p c req next w)) = sent w @ replicate (Suc j) (sent_event w req)"
  by (rule retry_execute_stops [OF assms])

lemma retry_first_final_witness:
  "let script = (\<lambda>k. if k = 1 then (Some (example_response 200), None) else (Some (example_response 503), None));
     p = NewRetry DefaultRetryConfig
   in fst (retry_execute p ctx_background 0 (scripted script) still_world) = Returned (script 1) \<and>
     sent (snd (retry_execute p ctx_background 0 (scripted script) still_world))
       = [Sent ''GET'' ''http://h/a'' [], Sent ''GET'' ''http://h/a'' []]"
  unfolding Let_def
  using retry_first_final [OF scripted_wire endless_background, of "NewRetry DefaultRetryConfig"
      "\<lambda>k. if k = 1 then (Some (example_response 200), None) else (Some (example_response 503), None)" still_world 0 1]
  by (force simp: still_world_example example_retry bodied_def example_response_def numeral_2_eq_2)

text \<open>
  C2. A new circuit breaker whose Execute serves any requests one after another, all inside one
  open period and around any inner policy that returns, ends open exactly when shouldTrip holds of
  FailureThreshold replies in a row that its callers got; a success in between starts the count
  again.
\<close>

theorem circuit_trips_exactly:
  assumes "OnStateChange (cp_hooks p) = None" and "returns_apart p next"
    and "cp_cfg p = circuit_defaults cfg" and "w_circuits w (cp_addr p) = new_circuit"
    and "circuit_execute_all p calls next w = (Returned rs, w')"
    and "w_now w' < w_now w + OpenDuration (cp_cfg p)"
  shows "circuit_state p w' = StateOpen \<longleftrightarrow>
    sublist (replicate (unat (FailureThreshold (cp_cfg p))) True)
      (map (\<lambda>r. should_trip (cp_cfg p) (fst r) (snd r)) rs)"
  using circuit_execute_all_trips [OF assms] by (simp add: reply_trips_def [abs_def])

lemma circuit_trips_exactly_witness:
  "let p = \<lparr>cp_addr = 7, cp_cfg = circuit_defaults (DefaultCircuitConfig\<lparr>FailureThreshold := 2\<rparr>), cp_hooks = no_hooks,
       cp_metrics = NilRecorder, cp_logger = DefaultLogger, cp_name = ''cb''\<rparr>;
     bad = scripted (\<lambda>_. (None, Some DeadlineExceeded))
   in circuit_state p (snd (circuit_execute_all p [(ctx_background, 0), (ctx_background, 0)] bad still_world)) = StateOpen"
proof -
  let ?p = "\<lparr>cp_addr = 7, cp_cfg = circuit_defaults (DefaultCircuitConfig\<lparr>FailureThreshold := 2\<rparr>), cp_hooks = no_hooks,
       cp_metrics = NilRecorder, cp_logger = DefaultLogger, cp_name = ''cb''\<rparr> :: circuit_policy"
  let ?bad = "scripted (\<lambda>_. (None, Some DeadlineExceeded))"
  let ?run = "circuit_execute_all ?p [(ctx_background, 0), (ctx_background, 0)] ?bad still_world"
  have run: "fst ?run = Returned [(None, Some DeadlineExceeded), (None, Some DeadlineExceeded)]" "w_now (snd ?run) = 0"
    by (simp_all add: bind_def get_def modify_def circuit_execute_def circuit_allow_def circuit_settle_def circuit_verdict_def set_circuit_def
        allow_request_def cb_read_section_def on_failure_def should_trip_def go_now_def still_world_def new_circuit_def
        circuit_defaults_def DefaultCircuitConfig_def Let_def return_def scripted_def announce_def call_hook_def
        report_def no_hooks_def sent_def word_le_nat_alt)
  then have run': "?run = (Returned [(None, Some DeadlineExceeded), (None, Some DeadlineExceeded)], snd ?run)"
    by (metis prod.collapse)
  have "circuit_state ?p (snd ?run) = StateOpen \<longleftrightarrow> sublist (replicate (unat (FailureThreshold (cp_cfg ?p))) True)
      (map (\<lambda>r. should_trip (cp_cfg ?p) (fst r) (snd r)) [(None, Some DeadlineExceeded), (None, Some DeadlineExceeded)])"
    by (rule circuit_trips_exactly [where cfg = "DefaultCircuitConfig\<lparr>FailureThreshold := 2\<rparr>", OF _ _ _ _ run'])
      (simp_all only: run(2), simp_all add: no_hooks_def returns_apart_def scripted_def still_world_def
        circuit_defaults_def DefaultCircuitConfig_def Let_def)
  moreover have "unat (FailureThreshold (cp_cfg ?p)) = Suc (Suc 0)"
    by (simp add: circuit_defaults_def DefaultCircuitConfig_def Let_def)
  moreover have "should_trip (cp_cfg ?p) None (Some DeadlineExceeded)"
    by (simp add: circuit_defaults_def DefaultCircuitConfig_def Let_def should_trip_def)
  ultimately show ?thesis
    unfolding Let_def by (simp only: list.map fst_conv snd_conv replicate_Suc replicate_0 sublist_order.order_refl simp_thms)
qed

text \<open>
  C3. In every interleaving in which no call is still going on after the time to live, at most one
  caller per key is inside the wrapped policy, and any caller that arrives meanwhile joins its
  call; one call older than that is enough to break this: it deletes its successor's entry, and
  two young calls of one key then run side by side.
\<close>

theorem singleflight_dedup:
  assumes "sf_init s"
  shows "(run (prompt_step key) s ls t \<and> sf_pc t i = SfLeading \<longrightarrow>
      sf_calls t (key i) = Some i \<and> (\<forall>j. sf_pc t j = SfLeading \<and> key j = key i \<longrightarrow> j = i)) \<and>
    (key 0 = key 1 \<and> key 1 = key 2 \<longrightarrow>
      (\<exists>ls u. run (sf_step key) s ls u \<and> sf_pc u 1 = SfLeading \<and> sf_pc u 2 = SfLeading \<and>
         sc_created (sf_call_of u 1) = sc_created (sf_call_of u 2)))"
proof (intro conjI impI)
  assume t: "run (prompt_step key) s ls t \<and> sf_pc t i = SfLeading"
  then have o: "sf_owned key t" using prompt.reachable_inv [OF assms] by blast
  with t show "sf_calls t (key i) = Some i" by (simp add: sf_owned_def)
  show "\<forall>j. sf_pc t j = SfLeading \<and> key j = key i \<longrightarrow> j = i"
    using sf_owned_unique [OF o] t by (metis sf_active_simps(1))
next
  assume "key 0 = key 1 \<and> key 1 = key 2"
  then show "\<exists>ls u. run (sf_step key) s ls u \<and> sf_pc u 1 = SfLeading \<and> sf_pc u 2 = SfLeading \<and>
      sc_created (sf_call_of u 1) = sc_created (sf_call_of u 2)"
    using sf_stale_duplicates [OF assms] by blast
qed

lemma singleflight_dedup_witness:
  "let s = \<lparr>sf_calls = \<lambda>_. None, sf_call_of = \<lambda>_. new_call 0, sf_pc = \<lambda>_. SfStart, sf_now = 0\<rparr>
   in \<exists>ls u. run (sf_step (\<lambda>_. ''k'')) s ls u \<and> sf_pc u 1 = SfLeading \<and> sf_pc u 2 = SfLeading"
proof -
  have "sf_init \<lparr>sf_calls = \<lambda>_. None, sf_call_of = \<lambda>_. new_call 0, sf_pc = \<lambda>_. SfStart, sf_now = 0\<rparr>"
    by (simp add: sf_init_def)
  from singleflight_dedup [OF this, of "\<lambda>_. ''k''"] show ?thesis unfolding Let_def by blast
qed

text \<open>
  C4. In every interleaving of callers and workers the bulkhead's in-flight counter is the number
  of requests being run, which is at most MaxConcurrent, and neither queue holds more than
  MaxQueue requests.
\<close>

theorem bulkhead_concurrency_bound:
  assumes "bh_init s" and "run (bh_step cfg ctxs) s ls s'"
  shows "unat (bh_inFlight s') = card {w. w < unat (MaxConcurrent cfg) \<and> (\<exists>i. bh_wpc s' w = WRunning i)} \<and>
    bh_inFlight s' \<le> MaxConcurrent cfg \<and>
    length (bh_queue s') \<le> unat (MaxQueue cfg) \<and> length (bh_highQ s') \<le> unat (MaxQueue cfg)"
  using bh_bounds.reachable_inv [OF assms] running_le [of "unat (MaxConcurrent cfg)" "bh_wpc s'"]
  by (simp add: bh_counts_def running_def word_le_nat_alt)

lemma bulkhead_concurrency_bound_witness:
  "\<exists>s'. run (bh_step bh_one (\<lambda>_. ctx_background)) bh_empty bh_one_labels s' \<and>
     bh_wpc s' 0 = WRunning 3 \<and> unat (bh_inFlight s') = card {w. w < unat (MaxConcurrent bh_one) \<and> (\<exists>i. bh_wpc s' w = WRunning i)} \<and>
     bh_inFlight s' \<le> MaxConcurrent bh_one"
  using bh_one_run bulkhead_concurrency_bound [OF bh_empty_init] by blast



text \<open>
  C6. CircuitBreakerPolicy.Execute refines the abstract breaker over any sequence of requests and
  around any inner policy that returns: the run returns a reply per request, and changes the
  breaker's fields exactly as serving a sequence of abstract calls does, whose verdicts are those
  on the replies and whose clock readings are in order from the start of the run to its end. A
  single call hands the inner reply on, or returns ErrCircuitOpen with nothing sent when it is not
  admitted.
\<close>

theorem circuit_refines:
  assumes "OnStateChange (cp_hooks p) = None" and "returns_apart p next"
  shows "(\<exists>rs w' ks. circuit_execute_all p calls next w = (Returned rs, w') \<and>
      w_circuits w' (cp_addr p) = cb_serve_all (cp_cfg p) ks (w_circuits w (cp_addr p)) \<and>
      map call_trip ks = map (\<lambda>r. should_trip (cp_cfg p) (fst r) (snd r)) rs \<and> length rs = length calls \<and>
      sorted (w_now w # concat (map call_times ks) @ [w_now w'])) \<and>
    (\<exists>r w' k admitted. circuit_execute p c req next w = (Returned r, w') \<and>
      cb_serve (cp_cfg p) k (w_circuits w (cp_addr p)) = (admitted, w_circuits w' (cp_addr p)) \<and>
      call_trip k = should_trip (cp_cfg p) (fst r) (snd r) \<and>
      (if admitted then \<exists>v. fst (next c req v) = Returned r
       else r = (None, Some ErrCircuitOpen) \<and> sent w' = sent w))"
  using circuit_execute_all_serves [OF assms, of calls w] circuit_execute_hands_on [OF assms, of c req w]
  by (simp add: reply_trips_def [abs_def])

lemma circuit_refines_witness:
  "let p = \<lparr>cp_addr = 7, cp_cfg = circuit_defaults DefaultCircuitConfig, cp_hooks = no_hooks,
       cp_metrics = NilRecorder, cp_logger = DefaultLogger, cp_name = ''cb''\<rparr>
   in \<exists>rs w' ks. circuit_execute_all p [(ctx_background, 0)] (scripted (\<lambda>_. (None, None))) still_world = (Returned rs, w') \<and>
     w_circuits w' 7 = cb_serve_all (cp_cfg p) ks new_circuit"
proof -
  let ?p = "\<lparr>cp_addr = 7, cp_cfg = circuit_defaults DefaultCircuitConfig, cp_hooks = no_hooks,
       cp_metrics = NilRecorder, cp_logger = DefaultLogger, cp_name = ''cb''\<rparr> :: circuit_policy"
  have "\<exists>rs w' ks. circuit_execute_all ?p [(ctx_background, 0)] (scripted (\<lambda>_. (None, None))) still_world = (Returned rs, w') \<and>
      w_circuits w' (cp_addr ?p) = cb_serve_all (cp_cfg ?p) ks (w_circuits still_world (cp_addr ?p))"
    using circuit_refines [of ?p "scripted (\<lambda>_. (None, None))" "[(ctx_background, 0)]" still_world]
    by (simp add: no_hooks_def returns_apart_def scripted_def) blast
  then show ?thesis by (simp add: still_world_def)
qed



text \<open>
  C8. When every reply within the attempts allowed is to be retried, the retry policy without a
  budget and a retry hook sends the request MaxRetries + 1 times, with the same body each time,
  and returns no response and an error that is ErrMaxRetries and also the last reply's own error,
  with the number of attempts and the last status in it.
\<close>

theorem retry_exhausts:
  assumes "wire script next" and "endless c" and "rp_budget p = None"
    and "OnRetry (rp_hooks p) = None" and "bodied script" and "sendable (rp_cfg p) w req"
    and "0 \<le> rc_MaxRetries (rp_cfg p)" and "rc_MaxRetries (rp_cfg p) < max_int64"
    and "\<forall>i \<le> nat (rc_MaxRetries (rp_cfg p)).
      again p (rq_method (w_requests w req)) (script (length (sent w) + i))"
  shows "let rep = script (length (sent w) + nat (rc_MaxRetries (rp_cfg p)));
      e = exhausted_error (rq_method (w_requests w req)) (rq_url (w_requests w req)) (rc_MaxRetries (rp_cfg p) + 1) rep
    in fst (retry_execute p c req next w) = Returned (None, Some e) \<and>
      errors_is (Some e) ErrMaxRetries \<and> (\<forall>x. snd rep = Some x \<longrightarrow> errors_is (Some e) x) \<and>
      sent (snd (retry_execute p c req next w))
        = sent w @ replicate (nat (rc_MaxRetries (rp_cfg p)) + 1) (sent_event w req)"
  unfolding Let_def using retry_execute_exhausts [OF assms] by (simp add: exhausted_error_is)

lemma retry_exhausts_witness:
  "length (sent (snd (retry_execute (NewRetry DefaultRetryConfig) ctx_background 0
      (scripted (\<lambda>_. (None, Some DeadlineExceeded))) still_world))) = 4"
  using retry_exhausts [OF scripted_wire endless_background, of "NewRetry DefaultRetryConfig"
      "\<lambda>_. (None, Some DeadlineExceeded)" still_world 0]
  by (simp add: still_world_example example_retry bodied_def Let_def)

text \<open>
  C9. The timeout policy hands a reply on unchanged, except an error that arrives when the timeout
  has passed and the caller's own context is not done: that becomes an error that is ErrTimeout,
  with the response still beside it, and nothing of the original error left in its chain. Once it
  has returned, the child context it ran the request in is done.
\<close>

theorem timeout_verdict:
  assumes "0 < tp_timeout t" and "enter_timeout c (tp_timeout t) req w = (child, r, w1)"
    and "next child r w1 = (Returned (resp, err), w2)" and "w_next w \<notin> w_cancelled w2"
  shows "(let late = ctx_error c w2 = None \<and> w_now w + tp_timeout t \<le> w_now w2
     in \<exists>w'. timeout_execute t c req next w = (Returned
         (case err of None \<Rightarrow> (resp, None)
          | Some e \<Rightarrow> if late then (resp, Some (errorf_wv ErrTimeout (error_text e))) else (resp, Some e)), w') \<and>
       ctx_error child w' \<noteq> None) \<and>
    errors_is (Some (errorf_wv ErrTimeout txt)) ErrTimeout \<and>
    (errors_is (Some (errorf_wv ErrTimeout txt)) x \<longleftrightarrow> x = ErrTimeout \<or> x = errorf_wv ErrTimeout txt)"
proof -
  obtain res w' where run: "timed_execute (tp_metrics t) (tp_timeout t) c req next w = (res, w')"
    by force
  have child: "child = with_timeout (w_next w) (w_now w) (tp_timeout t) c"
    using assms(2) by (simp add: enter_timeout_def Let_def)
  have "own_deadline child c w2 \<longleftrightarrow> ctx_error c w2 = None \<and> w_now w + tp_timeout t \<le> w_now w2"
    unfolding child using own_deadline_iff [of c w2 "w_next w"] own_deadline_parent assms(4) by blast
  moreover note timed_execute_returned [of "tp_timeout t" c req w child r w1 "next" "(resp, err)" w2 "tp_metrics t",
      OF assms(1-3)]
  ultimately show ?thesis
    using run timed_execute_cancels [OF assms(1,2) run]
    by (auto simp: timeout_execute_def Let_def errors_is_def errorf_wv_def split: option.splits)
qed

lemma timeout_verdict_witness:
  "let slow = (\<lambda>c req w. (Returned (None, Some Canceled), w\<lparr>w_now := 3 * second\<rparr>))
   in fst (timeout_execute (NewTimeout second) ctx_background 0 slow still_world)
     = Returned (None, Some (errorf_wv ErrTimeout ''context canceled''))"
proof -
  let ?slow = "\<lambda>c req w. (Returned (None, Some Canceled), w\<lparr>w_now := 3 * second\<rparr>)"
  obtain child r w1 where e: "enter_timeout ctx_background second 0 still_world = (child, r, w1)"
    using prod_cases3 by blast
  then have "w_cancelled w1 = {}" by (auto simp: enter_timeout_def still_world_def Let_def)
  then show ?thesis
    using timeout_verdict [of "NewTimeout second" ctx_background 0 still_world child r w1 ?slow None "Some Canceled"] e
    by (force simp: NewTimeout_def still_world_def Let_def)
qed



text \<open>
  C11. The three loops that build a chain, in Chain's Execute, in buildChain and in New for a
  client with a request log, build the same function, in which each policy runs around all that
  come after it; a chain of one policy is that policy, a chain inside a chain is the same as its
  policies in its place, and an empty Chain sends nothing and returns an error.
\<close>

theorem chains_equivalent:
  "build_chain ps f = nested ps f \<and> hd (wrap_all ps f) = nested ps f \<and>
   execute (PChain ps) c req f = nested ps f c req \<and>
   (ps \<noteq> [] \<longrightarrow> execute (chain_of ps) c req f = nested ps f c req \<and>
      nested (qs @ chain_of ps # rs) f = nested (qs @ ps @ rs) f) \<and>
   execute (chain_of []) c req f w = (Returned (None, Some empty_chain_error), w)"
  using build_chain_flatten [of ps qs rs f]
  by (simp add: build_chain_nested [symmetric] wrap_all_hd execute_chain_of execute_PChain return_def
      del: nested.simps execute.simps(14))

lemma chains_equivalent_witness:
  "execute (chain_of [PRequestID NewRequestIDPolicy]) ctx_background 0 (\<lambda>_ _. return (None, None))
     = nested [PRequestID NewRequestIDPolicy] (\<lambda>_ _. return (None, None)) ctx_background 0"
  using chains_equivalent [of "[PRequestID NewRequestIDPolicy]"] by blast





text \<open>
  C14. If no call panics, then in every reachable half-open state some admitted request of the
  current generation is still running, so its settling will close the breaker or open it again:
  the breaker is never left half-open with nobody to settle it.
\<close>

theorem circuit_half_open_probed:
  assumes "circuit_config_ok cfg" and "cb_init s" and "run (cb_step cfg False) s ls s'"
    and "cb_state (sys_cb s') = StateHalfOpen"
  shows "\<exists>t. sys_pc s' t = Running (cb_generation (sys_cb s')) \<and>
    (\<forall>b. \<exists>ts s''. cb_step cfg False s' (Settles t b ts) s'' \<and>
       cb_state (sys_cb s'') = (if b then StateOpen else StateClosed))"
proof -
  have "probing s'" using cb_probing.reachable_inv [of cfg s] assms(1-3) by blast
  then obtain t where t: "sys_pc s' t = Running (cb_generation (sys_cb s'))"
    using assms(4) by (auto simp: probing_def)
  with probe_settles [OF t assms(4)] show ?thesis by blast
qed

lemma circuit_half_open_probed_witness:
  "\<exists>(s :: cb_sys) t. cb_state (sys_cb s) = StateHalfOpen \<and> sys_pc s t = Running (cb_generation (sys_cb s))"
proof -
  obtain s0 ls0 s where r: "cb_init s0" "run (cb_step DefaultCircuitConfig False) s0 ls0 s"
    "cb_state (sys_cb s) = StateHalfOpen"
    using half_open_reachable by blast
  have "circuit_config_ok DefaultCircuitConfig"
    by (simp add: circuit_config_ok_def DefaultCircuitConfig_def)
  from circuit_half_open_probed [OF this r] r(3) show ?thesis by blast
qed

text \<open>
  C15. An open breaker denies every request read before its open duration is over and stays as it
  is; the first request after it is admitted as the probe, and its outcome alone closes the
  breaker with no failures counted or opens it again from the instant it failed.
\<close>

theorem circuit_open_period:
  assumes "circuit_config_ok cfg" and "cb_state cb = StateOpen" and "call_read c \<le> call_lock c"
  shows "if call_read c - cb_openedAt cb < OpenDuration cfg
    then cb_serve cfg c cb = (False, cb)
    else fst (cb_serve cfg c cb) \<and>
      (if call_trip c
       then cb_state (snd (cb_serve cfg c cb)) = StateOpen \<and>
         cb_openedAt (snd (cb_serve cfg c cb)) = call_settle c
       else cb_state (snd (cb_serve cfg c cb)) = StateClosed \<and>
         cb_failures (snd (cb_serve cfg c cb)) = 0)"
  using serve_open_early [OF assms(2), of c cfg] serve_open_probe [OF assms(1,2) _ assms(3)]
  by auto

lemma circuit_open_period_witness:
  "let cb = new_circuit\<lparr>cb_state := StateOpen, cb_openedAt := 5\<rparr>;
     c = \<lparr>call_read = 31 * second, call_lock = 31 * second, call_trip = False, call_settle = 32 * second\<rparr>
   in cb_state (snd (cb_serve DefaultCircuitConfig c cb)) = StateClosed"
  unfolding Let_def
  using circuit_open_period [of DefaultCircuitConfig "new_circuit\<lparr>cb_state := StateOpen, cb_openedAt := 5\<rparr>"
      "\<lparr>call_read = 31 * second, call_lock = 31 * second, call_trip = False, call_settle = 32 * second\<rparr>"]
  by (simp add: circuit_config_ok_def DefaultCircuitConfig_def)



text \<open>
  C17. In every interleaving the transitions reported to the hook and the metrics recorder form
  one path of the state machine from closed to the state the breaker is in: only closed to open,
  open to half-open, half-open to closed and half-open to open, each starting where the one before
  ended.
\<close>

theorem circuit_transitions_legal:
  assumes "cb_init s" and "run (cb_step cfg panics) s ls s'"
  shows "transition_path StateClosed (concat (map label_transitions ls)) (cb_state (sys_cb s'))"
  using cb_run_path [OF assms(2)] assms(1) by (simp add: cb_init_def new_circuit_def)

lemma circuit_transitions_legal_witness:
  "\<exists>s0 ls s. cb_init s0 \<and> run (cb_step DefaultCircuitConfig False) s0 ls s \<and>
     transition_path StateClosed (concat (map label_transitions ls)) StateHalfOpen"
proof -
  obtain s0 ls s where r: "cb_init s0" "run (cb_step DefaultCircuitConfig False) s0 ls s"
    "cb_state (sys_cb s) = StateHalfOpen"
    using half_open_reachable by blast
  with circuit_transitions_legal [OF r(1,2)] show ?thesis by auto
qed

text \<open>
  C18. In every interleaving each call of Execute hands its request to a worker at most once, and
  once handed over the request is being run, or its result waits in the caller's channel, or the
  caller has returned: no result is lost while its caller waits.
\<close>

theorem bulkhead_runs_once:
  assumes "bh_init s" and "run (bh_step cfg ctxs) s ls s'"
  shows "length (filter (\<lambda>l. i \<in> set (bh_started l)) ls) \<le> 1 \<and>
    (bh_cpc s' i = CResult \<longrightarrow>
       (\<exists>w < unat (MaxConcurrent cfg). bh_wpc s' w = WRunning i) \<or> bh_resultCh s' i \<noteq> None)"
proof -
  have "bh_safe cfg s'" using bh_ids.reachable_inv [OF assms] .
  then have "bh_id_ok s' i" "bh_result_ok cfg s'" by (simp_all add: bh_safe_def bh_ids_ok_def)
  then show ?thesis
    using bh_at_most_once [OF assms] by (auto simp: bh_id_ok_def bh_result_ok_def)
qed

lemma bulkhead_runs_once_witness:
  "\<exists>s'. run (bh_step bh_one (\<lambda>_. ctx_background)) bh_empty bh_one_labels s' \<and> bh_cpc s' 3 = CResult \<and>
     length (filter (\<lambda>l. 3 \<in> set (bh_started l)) bh_one_labels) \<le> 1 \<and>
     ((\<exists>w < unat (MaxConcurrent bh_one). bh_wpc s' w = WRunning 3) \<or> bh_resultCh s' 3 \<noteq> None)"
  using bh_one_run bulkhead_runs_once [OF bh_empty_init] by blast



text \<open>
  C20. In every interleaving, all callers whose Execute returned with the outcome of the same call
  got the same outcome: the same response fields and bytes, or the same error; and that outcome is
  what the finished call holds.
\<close>

theorem singleflight_shared:
  assumes "sf_init s" and "run (sf_step key) s ls t" and "sf_pc t i = SfDone k x" and "sf_pc t j = SfDone k y"
  shows "x = y \<and> sf_outcome k (sf_call_of t k) = SfDone k x"
  using sf_shared_done [OF shared.reachable_inv [OF assms(1,2)]] assms(3,4) by (metis sf_pc.inject(5))

lemma singleflight_shared_witness:
  "\<exists>t. run (sf_step (\<lambda>_. ''k'')) \<lparr>sf_calls = \<lambda>_. None, sf_call_of = \<lambda>_. new_call 0, sf_pc = \<lambda>_. SfStart, sf_now = 0\<rparr>
     [SfLead 0 0, SfReturn 0 (None, Some Canceled) [], SfForget 0] t \<and> sf_pc t 0 = SfDone 0 (None, Some Canceled)"
proof -
  let ?s = "\<lparr>sf_calls = \<lambda>_. None, sf_call_of = \<lambda>_. new_call 0, sf_pc = \<lambda>_. SfStart, sf_now = 0\<rparr>"
  obtain t where t: "run (sf_step (\<lambda>_. ''k'')) ?s [SfLead 0 0, SfReturn 0 (None, Some Canceled) [], SfForget 0] t"
    "sf_pc t 0 = SfDone 0 (None, Some Canceled)"
    by (rule sf_example_run)
  have "sf_init ?s" by (simp add: sf_init_def)
  from singleflight_shared [OF this t(1) t(2) t(2)] t show ?thesis by blast
qed







text \<open>
  C24. After a 429 or 503 whose Retry-After header is a positive number of seconds, the retry
  policy waits exactly that long, cut to MaxBackoff and to a year of 365 days even where the
  product overflows; in every case the wait is not negative and at most MaxBackoff or the
  strategy's own bound, whichever is larger.
\<close>

theorem retry_after_honoured:
  assumes "float_ok (w_float w)" and "backoff_ok (rp_backoff p)" and "0 < rc_MaxBackoff (rp_cfg p)"
  shows "(\<exists>d. fst (retry_delay p resp k w) = Returned d \<and>
       0 \<le> d \<and> d \<le> max (rc_MaxBackoff (rp_cfg p)) (backoff_bound (rp_backoff p))) \<and>
    (\<forall>r n. resp = Some r \<and> header_get (rs_header r) ''Retry-After'' = itoa n \<and> 0 < n \<and> n \<le> max_int64 \<and>
       rs_status r \<in> {StatusTooManyRequests, StatusServiceUnavailable} \<longrightarrow>
       fst (retry_delay p resp k w) = Returned (min (min (n * second) max_delay) (rc_MaxBackoff (rp_cfg p))))"
proof -
  obtain d w' where "retry_delay p resp k w = (Returned d, w')"
    using total_progE [OF total_retry_delay] .
  then show ?thesis
    using retry_delay_bound [OF assms, of resp k d] retry_delay_seconds [of _ _ p k w] assms(3)
    by auto
qed

lemma retry_after_honoured_witness:
  "let h = header_set (\<lambda>_. None) ''Retry-After'' (itoa 2);
     r = (example_response 429)\<lparr>rs_header := h\<rparr>;
     p = NewRetry (DefaultRetryConfig\<lparr>rc_Backoff := Some (ConstantBackoff second)\<rparr>)
   in fst (retry_delay p (Some r) 0 still_world) = Returned (2 * second)"
proof -
  let ?p = "NewRetry (DefaultRetryConfig\<lparr>rc_Backoff := Some (ConstantBackoff second)\<rparr>)"
  let ?r = "(example_response 429)\<lparr>rs_header := header_set (\<lambda>_. None) ''Retry-After'' (itoa 2)\<rparr>"
  have "float_ok (w_float still_world)" by (simp add: still_world_def exact_float_ok)
  moreover have "backoff_ok (rp_backoff ?p)" "0 < rc_MaxBackoff (rp_cfg ?p)"
    by (simp_all add: example_retry_const)
  ultimately show ?thesis
    using retry_after_honoured [of still_world ?p "Some ?r" 0]
    by (auto simp: example_response_def example_retry_const Let_def)
qed

text \<open>
  C25. For the exponential, constant and linear strategies with a sane configuration, whatever the
  random draws and whatever the platform's rounding, the waits of n attempts are not negative and
  add up to at most n times the strategy's bound: MaxBackoff, twice MaxBackoff when there is
  jitter.
\<close>

theorem backoff_waits_bounded:
  assumes "float_ok fe" and "backoff_ok b" and "\<And>n. 0 \<le> u n \<and> u n < 1"
  shows "0 \<le> (\<Sum>k<n. next_delay fe (u (int k)) b (int k)) \<and>
    (\<Sum>k<n. next_delay fe (u (int k)) b (int k)) \<le> int n * backoff_bound b"
  using bounded_backoff.total_wait bounded_backoff.total_wait_nonneg
    next_delay_bounded_backoff [of fe b u, OF assms] by blast

lemma backoff_waits_bounded_witness:
  "let b = ExponentialBackoff \<lparr>exp_initial = 100 * millisecond, exp_max = 5 * second,
       exp_multiplier = 2, exp_jitter = 1/5\<rparr>
   in (\<Sum>k<4. next_delay exact_float (1/2) b (int k)) \<le> int 4 * (2 * (5 * second))"
  unfolding Let_def
  using backoff_waits_bounded [OF exact_float_ok, of "ExponentialBackoff \<lparr>exp_initial = 100 * millisecond,
      exp_max = 5 * second, exp_multiplier = 2, exp_jitter = 1/5\<rparr>" "\<lambda>_. 1/2" 4]
  by simp

text \<open>
  C26. In every interleaving of n goroutines that ask a new retry budget, while no reset of the
  window is half done, the retries counted are at most the budget's share of the questions counted
  plus n. A goroutine that nobody interrupts gets the sequential answer. And n goroutines that ask
  together can all be told yes, whatever the budget.
\<close>

theorem retry_budget_share:
  assumes "float_ok fe" and "budget_ok fe (ba_rb s)" and "ba_init fe b w s"
  shows "(run (ba_step fe n) s ls t \<and> int (length ls) \<le> 9007199254740992 \<and> \<not> ba_resetting t \<longrightarrow>
      of_int (rb_retries (ba_rb t)) \<le> rb_budget (ba_rb s) * of_int (rb_total (ba_rb t)) + (of_nat n :: rat)) \<and>
    (i < n \<longrightarrow> (\<exists>ls t. run (ba_step fe n) s ls t \<and>
      (BaAnswered (fst (budget_allow fe (ba_now s) (ba_rb s))), snd (budget_allow fe (ba_now s) (ba_rb s)))
        = (ba_pc t i, ba_rb t))) \<and>
    (\<exists>ls t. run (ba_step fe n) s ls t \<and> rb_total (ba_rb t) = int n \<and> rb_retries (ba_rb t) = int n \<and>
      (\<forall>i < n. ba_pc t i = BaAnswered True))"
proof (intro conjI impI)
  show "\<exists>ls t. run (ba_step fe n) s ls t \<and>
      (BaAnswered (fst (budget_allow fe (ba_now s) (ba_rb s))), snd (budget_allow fe (ba_now s) (ba_rb s)))
        = (ba_pc t i, ba_rb t)" if "i < n"
    using ba_alone [OF that, of s fe] assms(3) by (force simp: ba_init_def)
qed (use ba_run_share [OF assms] ba_all_told_yes [OF assms] in auto)

lemma retry_budget_share_witness:
  "let s = \<lparr>ba_rb = NewRetryBudget exact_float 0 (1/10) second, ba_lock = False, ba_now = 0, ba_pc = \<lambda>_. BaIdle\<rparr>
   in \<exists>ls t. run (ba_step exact_float 7) s ls t \<and> rb_total (ba_rb t) = 7 \<and> rb_retries (ba_rb t) = 7"
  unfolding Let_def
  using retry_budget_share [OF exact_float_ok, of "\<lparr>ba_rb = NewRetryBudget exact_float 0 (1/10) second, ba_lock = False,
      ba_now = 0, ba_pc = \<lambda>_. BaIdle\<rparr>" "1/10" second 7]
  by (fastforce simp: budget_ok_def NewRetryBudget_def exact_float_def ba_init_def)



text \<open>
  C28. In every interleaving, a caller that is served from the cache gets the response and body
  that the latest store before its lookup put under the same method and URL, stored less than the
  time to live before the hit, whatever was stored and evicted in between and in whatever order
  the map was iterated. Callers that look up together before anything is stored are all sent on to
  the next policy: misses of one key are not coalesced.
\<close>

theorem cache_hit_is_latest:
  assumes "ca_init s" and "run (ca_step cfg reqs fine) s (ls @ [CaHit i v]) t"
    and "\<And>j. CHR '' '' \<notin> set (fst (reqs j))"
  shows "(\<exists>ls1 ls2 x now. ls = ls1 @ CaLookup i # ls2 \<and>
      find (\<lambda>(_, _, r, _). r = reqs i) (ca_puts reqs ls1) = Some (x, now, reqs i, v) \<and> ca_now t - now < TTL cfg) \<and>
    (\<exists>u. run (ca_step cfg reqs fine) s
      (map CaLookup [0..<n] @ map CaMiss [0..<n] @ map (\<lambda>j. CaFetch j (w j)) [0..<n]) u)"
  using ca_hit_latest [OF assms] ca_stampede [OF assms(1)] by blast

lemma cache_hit_is_latest_witness:
  "let s = \<lparr>ca_table = [], ca_now = 0, ca_pc = \<lambda>_. CaStart\<rparr>; v = (example_response 200, [1, 2]);
     ls = [CaLookup 0, CaMiss 0, CaFetch 0 v, CaStore 0 1 1 [] v, CaLookup 1]
   in \<exists>ls1 ls2 x now. ls = ls1 @ CaLookup 1 # ls2 \<and>
     find (\<lambda>(_, _, r, _). r = (''GET'', ''/a'')) (ca_puts (\<lambda>_. (''GET'', ''/a'')) ls1) = Some (x, now, (''GET'', ''/a''), v)"
proof -
  let ?s = "\<lparr>ca_table = [], ca_now = 0, ca_pc = \<lambda>_. CaStart\<rparr> :: ca_sys" and ?v = "(example_response 200, [1, 2])"
  have i: "ca_init ?s" by (simp add: ca_init_def)
  obtain t where "run (ca_step \<lparr>TTL = 10, MaxEntries = 1, Methods = []\<rparr> (\<lambda>_. (''GET'', ''/a'')) True) ?s
      ([CaLookup 0, CaMiss 0, CaFetch 0 ?v, CaStore 0 1 1 [] ?v, CaLookup 1] @ [CaHit 1 ?v]) t"
    using ca_example_run [OF _ i, of "\<lambda>_. (''GET'', ''/a'')" "[]" ?v] by auto
  from cache_hit_is_latest [OF i this] show ?thesis unfolding Let_def by fastforce
qed

text \<open>
  C29. In every interleaving in which the clock moves on before each store, the table's keys are
  distinct and its size is within MaxEntries. What a store evicts was created no later than any
  other entry, also in the interleavings in which the clock stands still; but in those nothing is
  old enough to be evicted, and requests with different keys fill the table beyond every bound.
\<close>

theorem cache_size_bounded:
  assumes "1 \<le> MaxEntries cfg" and "ca_init s"
  shows "(run (ca_step cfg reqs True) s ls t \<longrightarrow>
      cache_ok (ca_table t) \<and> int (length (ca_table t)) \<le> MaxEntries cfg) \<and>
    (run (ca_step cfg reqs fine) s ls u \<and> ca_step cfg reqs fine u l t \<and>
      map_of (ca_table u) k = Some e \<and> map_of (ca_table t) k = None \<longrightarrow>
      (\<forall>k' e'. map_of (ca_table u) k' = Some e' \<longrightarrow> ce_createdAt e \<le> ce_createdAt e')) \<and>
    (inj (ca_key reqs) \<longrightarrow> (\<exists>ls t. run (ca_step cfg reqs False) s ls t \<and> length (ca_table t) = n))"
proof (intro conjI impI)
  assume "run (ca_step cfg reqs True) s ls t"
  then have "ca_sized cfg t" using ca_fine.reachable_inv [of cfg s reqs ls t] assms by simp
  then show "cache_ok (ca_table t)" and "int (length (ca_table t)) \<le> MaxEntries cfg"
    by (simp_all add: ca_sized_def ca_dated_def)
next
  assume r: "run (ca_step cfg reqs fine) s ls u \<and> ca_step cfg reqs fine u l t \<and>
    map_of (ca_table u) k = Some e \<and> map_of (ca_table t) k = None"
  then have "ca_dated u" using ca_always.reachable_inv [OF assms(2)] by blast
  with r show "\<forall>k' e'. map_of (ca_table u) k' = Some e' \<longrightarrow> ce_createdAt e \<le> ce_createdAt e'"
    using ca_step_evicts_oldest by blast
next
  assume "inj (ca_key reqs)"
  from ca_fills [OF assms(2) this] show "\<exists>ls t. run (ca_step cfg reqs False) s ls t \<and> length (ca_table t) = n"
    by blast
qed

lemma cache_size_bounded_witness:
  "let s = \<lparr>ca_table = [], ca_now = 0, ca_pc = \<lambda>_. CaStart\<rparr>;
     cfg = \<lparr>TTL = 10, MaxEntries = 1, Methods = []\<rparr>; reqs = (\<lambda>i. (''GET'', replicate i (CHR ''a'')))
   in \<exists>ls t. run (ca_step cfg reqs False) s ls t \<and> length (ca_table t) = 7"
proof -
  have "inj (ca_key (\<lambda>i. (''GET'', replicate i (CHR ''a''))))"
    by (rule injI) (auto simp: ca_key_def cache_key_def dest: arg_cong [where f = length])
  moreover have "ca_init \<lparr>ca_table = [], ca_now = 0, ca_pc = \<lambda>_. CaStart\<rparr>" by (simp add: ca_init_def)
  ultimately show ?thesis
    unfolding Let_def
    using cache_size_bounded [of "\<lparr>TTL = 10, MaxEntries = 1, Methods = []\<rparr>" "\<lparr>ca_table = [], ca_now = 0, ca_pc = \<lambda>_. CaStart\<rparr>"]
    by (metis (no_types, lifting) cache_config.select_convs(2) order_refl)
qed

text \<open>
  C30. The recorder's counters under concurrency: while n goroutines record a call each and
  another takes a snapshot, in any interleaving of their atomic operations, no more requests are
  counted as failed than are counted, and a snapshot never reports more of either than was counted
  by its end. When every call has been recorded, all counters, the total time included, are those
  of recording the calls one after another, whatever the order; only the circuit state may be that
  of another call.
\<close>

theorem stats_consistent:
  assumes "ss_init s" and "run (ss_step n ms) s ls t" and "int n < 2 ^ 64"
  shows "st_failed (ss_rec t) \<le> st_requests (ss_rec t) \<and>
    RequestsTotal (ss_snap t) \<le> st_requests (ss_rec t) \<and> RequestsFailed (ss_snap t) \<le> st_failed (ss_rec t) \<and>
    (ss_quiet n ms t \<longrightarrow>
      (\<exists>c. ss_rec t = (stats_after (map ms [0..<n]) (newStatsRecorder (ss_now s)))\<lparr>st_circuitState := c\<rparr>))"
  using ss_consistent [OF assms] ss_quiet_sequential [OF assms(1,2)] by simp

lemma stats_consistent_witness:
  "\<exists>(t :: ss_sys) c. ss_rec t = (stats_record (MRequest ''GET'' ''/'' 500 7) (newStatsRecorder 0))\<lparr>st_circuitState := c\<rparr> \<and>
     RequestsTotal (ss_snap t) = 0 \<and> RequestsFailed (ss_snap t) = 1"
proof -
  have s: "ss_init ss_start" by (auto simp: ss_init_def ss_start_def)
  obtain t where t: "run (ss_step 1 (\<lambda>_. MRequest ''GET'' ''/'' 500 7)) ss_start
     ([SsRead, SsRead, SsRead] @ [SsUpdate 0, SsUpdate 0, SsUpdate 0] @ [SsRead]) t"
    "ss_quiet 1 (\<lambda>_. MRequest ''GET'' ''/'' 500 7) t" "RequestsTotal (ss_snap t) = 0" "RequestsFailed (ss_snap t) = 1"
    using ss_torn_run by blast
  from stats_consistent [OF s t(1)] t(2)
  obtain c where "ss_rec t = (stats_record (MRequest ''GET'' ''/'' 500 7) (newStatsRecorder 0))\<lparr>st_circuitState := c\<rparr>"
    by (auto simp: stats_after_def ss_start_def)
  with t(3,4) show ?thesis by (intro exI [of _ t] exI [of _ c]) simp
qed

text \<open>
  C31. A caller that waits for a queue, from the moment it blocks on the send until a worker takes
  its request, is never stuck: in every state, once the clock reaches its deadline, the step that
  denies it with the queue-timeout error, which is ErrBulkheadFull, is enabled. But denying a
  caller whose request is queued does not withdraw the request: the denial is counted, the queue
  is unchanged, and when the request is at its head a worker that is waiting can take it and run
  it.
\<close>

theorem bulkhead_wait_ends:
  assumes "bh_cpc s i \<in> {CEnqueue dl, CSent dl, CQueued dl}"
  shows "(\<exists>s'. run (bh_step cfg ctxs) s [BhClock (max 0 (dl - bh_now s)), BhDeny i] s' \<and>
      bh_cpc s' i = CReturned None (Some (bh_timeout_error cfg)) \<and>
      errors_is (Some (bh_timeout_error cfg)) ErrBulkheadFull) \<and>
    (\<forall>s'. bh_step cfg ctxs s (BhDeny i) s' \<and> bh_cpc s i = CQueued dl \<longrightarrow>
      bh_queue s' = bh_queue s \<and> bh_denied s' = bh_denied s + 1 \<and> has_returned (bh_cpc s' i)) \<and>
    (bh_cpc s i = CQueued dl \<and> dl \<le> bh_now s \<and> bh_queue s = i # q \<and> w < unat (MaxConcurrent cfg) \<and>
      bh_wpc s w = WSelect \<longrightarrow>
      (\<exists>s'. run (bh_step cfg ctxs) s [BhDeny i, BhTake w i False] s' \<and>
        bh_cpc s' i = CReturned None (Some (bh_timeout_error cfg)) \<and> bh_wpc s' w = WRunning i))"
proof -
  have "errors_is (Some (bh_timeout_error cfg)) ErrBulkheadFull" by (simp add: bh_timeout_error_def)
  then show ?thesis
    using bh_waiting_returns [OF assms, of cfg ctxs] bh_denied_still_runs [of s i dl q w cfg ctxs]
      bh_deny_keeps_queue [of cfg ctxs s i]
    by (intro conjI) blast+
qed

lemma bulkhead_wait_ends_witness:
  "let s = bh_empty\<lparr>bh_cpc := \<lambda>_. CQueued 5, bh_now := 9, bh_queue := [1], bh_wpc := \<lambda>_. WSelect\<rparr>
   in \<exists>s'. run (bh_step \<lparr>MaxConcurrent = 1, MaxQueue = 1, QueueTimeout = 0, Priority = False\<rparr> (\<lambda>_. ctx_background))
        s [BhDeny 1, BhTake 0 1 False] s' \<and> bh_wpc s' 0 = WRunning 1"
  unfolding Let_def
  using bulkhead_wait_ends [of "bh_empty\<lparr>bh_cpc := \<lambda>_. CQueued 5, bh_now := 9, bh_queue := [1], bh_wpc := \<lambda>_. WSelect\<rparr>"
      1 5 "\<lparr>MaxConcurrent = 1, MaxQueue = 1, QueueTimeout = 0, Priority = False\<rparr>" "\<lambda>_. ctx_background" "[]" 0]
  by auto





text \<open>
  C34. When the next policy runs, the request has the identifier it came with, or else the
  generated one, in the header that every shallow copy of the request shares; the default
  generator gives 24 hexadecimal digits that determine its 12 random bytes.
\<close>

theorem request_id_shared:
  assumes "rid_gen p = defaultIDGenerator"
  shows "\<exists>v w2. request_id_execute p c req next w = next c req w2 \<and>
    (\<forall>r. rq_header (w_requests w r) = rq_header (w_requests w req) \<longrightarrow>
       header_get (request_header r w2) (rid_header p) = v) \<and>
    (if header_get (request_header req w) (rid_header p) \<noteq> []
     then v = header_get (request_header req w) (rid_header p)
     else \<exists>bs. v = hex_encode bs \<and> length bs = 12 \<and> length v = 24 \<and>
       (\<forall>cs. length cs = 12 \<and> hex_encode cs = v \<longrightarrow> cs = bs))"
proof (cases "header_get (request_header req w) (rid_header p) = []")
  case True
  obtain bs w1 where g: "defaultIDGenerator w = (Returned (hex_encode bs), w1)" "length bs = 12"
    "w_headers w1 = w_headers w" "w_requests w1 = w_requests w"
    by (rule defaultIDGenerator_eval)
  obtain w2 where "request_id_execute p c req next w = next c req w2"
    "\<And>r. rq_header (w_requests w r) = rq_header (w_requests w req) \<Longrightarrow>
      header_get (request_header r w2) (rid_header p) = hex_encode bs"
    by (rule request_id_new [OF True, of "hex_encode bs" w1 c "next"]) (use assms g in auto)
  with True g(2) show ?thesis
    by (intro exI [of _ "hex_encode bs"] exI [of _ w2]) (use hex_encode_inject in \<open>force simp: hex_encode_length\<close>)
next
  case False
  then show ?thesis
    by (intro exI [of _ "header_get (request_header req w) (rid_header p)"] exI [of _ w])
      (auto simp: request_id_kept request_header_def)
qed

lemma request_id_shared_witness:
  "\<exists>v w2. request_id_execute NewRequestIDPolicy ctx_background 0 (scripted (\<lambda>_. (None, None))) still_world
     = scripted (\<lambda>_. (None, None)) ctx_background 0 w2 \<and> header_get (request_header 0 w2) ''X-Request-ID'' = v \<and> length v = 24"
  using request_id_shared [of NewRequestIDPolicy ctx_background 0 "scripted (\<lambda>_. (None, None))" still_world]
  by (fastforce simp: NewRequestIDPolicy_def defaultRequestIDHeader_def still_world_def request_header_def header_get_def)



text \<open>
  C36. The health status of a client depends on its last circuit breaker alone: it is degraded,
  and the handler answers 503, exactly when that breaker is open; an open breaker that another one
  follows in the chain is not seen, and a client without breakers is healthy.
\<close>

theorem health_status:
  assumes "w_checkers w (c_hcRef c) = Some h"
  shows "\<exists>s w'. health_handler c w = (Returned (if hs_Status s = ''degraded'' then 503 else 200, s), w') \<and>
    (hs_Status s = ''degraded'' \<longleftrightarrow>
      (\<exists>p. last_breaker (c_policies c) = Some p \<and> circuit_state p w = StateOpen)) \<and>
    (hs_Status s = ''healthy'' \<longleftrightarrow> hs_Status s \<noteq> ''degraded'')"
proof -
  obtain s w' where "health_handler c w = (Returned (if hs_Status s \<noteq> ''healthy'' then 503 else 200, s), w')"
    "hs_Status s = status_of (status_entries w (c_policies c) [])"
    by (rule health_handler_eval [OF assms])
  then show ?thesis
    by (intro exI [of _ s] exI [of _ w']) (auto simp: status_of_last_breaker split: option.splits)
qed

lemma health_status_witness:
  "\<exists>s w'. health_handler (initial_client 0 (\<lambda>_. return (None, None)))
     (still_world\<lparr>w_checkers := [0 \<mapsto> \<lparr>hk_started = 0, hk_memStats = None, hk_memUpdated = 0, hk_stopped = False\<rparr>]\<rparr>)
     = (Returned (200, s), w')"
  using health_status [of "still_world\<lparr>w_checkers := [0 \<mapsto> \<lparr>hk_started = 0, hk_memStats = None, hk_memUpdated = 0,
      hk_stopped = False\<rparr>]\<rparr>" "initial_client 0 (\<lambda>_. return (None, None))"]
  by (auto simp: initial_client_def)

text \<open>
  C37. A panicking probe is never settled: with one probe allowed there is a reachable state,
  half-open with no permit left and no probe running, from which no interleaving ever admits a
  request again.
\<close>

theorem circuit_panic_stuck:
  assumes "circuit_config_ok cfg" and "HalfOpenMaxReqs cfg = 1" and "0 \<le> OpenDuration cfg"
    and "cb_state (sys_cb s) = StateOpen" and "\<forall>t. sys_pc s t = Outside"
  shows "\<exists>ls s'. run (cb_step cfg True) s ls s' \<and>
    (\<forall>ls' s''. run (cb_step cfg True) s' ls' s'' \<longrightarrow>
       cb_state (sys_cb s'') = StateHalfOpen \<and> (\<forall>l \<in> set ls'. \<not> is_admit l))"
proof -
  obtain ls s' where "run (cb_step cfg True) s ls s'" "stuck s'"
    using panic_reaches_stuck [OF assms] by blast
  then show ?thesis
    using cb_stuck.run_trap stuck_no_admit unfolding stuck_def by metis
qed

lemma circuit_panic_stuck_witness:
  "\<exists>ls s'. run (cb_step DefaultCircuitConfig True)
      \<lparr>sys_cb = new_circuit\<lparr>cb_state := StateOpen\<rparr>, sys_now = 0, sys_pc = \<lambda>_. Outside\<rparr> ls s' \<and>
    cb_state (sys_cb s') = StateHalfOpen"
proof -
  let ?s = "\<lparr>sys_cb = new_circuit\<lparr>cb_state := StateOpen\<rparr>, sys_now = 0, sys_pc = \<lambda>_. Outside\<rparr>"
  obtain ls s' where "run (cb_step DefaultCircuitConfig True) ?s ls s'"
    and "\<forall>ls' s''. run (cb_step DefaultCircuitConfig True) s' ls' s'' \<longrightarrow>
       cb_state (sys_cb s'') = StateHalfOpen \<and> (\<forall>l \<in> set ls'. \<not> is_admit l)"
    using circuit_panic_stuck [of DefaultCircuitConfig ?s]
    by (auto simp: circuit_config_ok_def DefaultCircuitConfig_def)
  then show ?thesis using run_Nil by metis
qed



text \<open>
  C39. With a retry budget, every reply without a permanent error is put to the budget, also one
  that is not retried at all: a successful reply changes the budget's counters exactly as a retry
  does.
\<close>

theorem retry_budget_spent:
  assumes "rp_budget p = Some a" and "errors_as is_permanent (snd r) = None"
  shows "\<exists>now ok. should_retry p (Some req) r w =
      (Returned (ok \<and> retryable (rp_cfg p) (rq_method (w_requests w req)) r), snd (should_retry p (Some req) r w)) \<and>
    w_now w \<le> now \<and> fst (budget_allow (w_float w) now (w_budgets w a)) = ok \<and>
    w_budgets (snd (should_retry p (Some req) r w))
      = (w_budgets w)(a := snd (budget_allow (w_float w) now (w_budgets w a)))"
proof -
  let ?now = "w_now w + int (w_tick w (w_pos w))"
  obtain ok rb where "budget_allow (w_float w) ?now (w_budgets w a) = (ok, rb)" by force
  with should_retry_budget [OF assms this, of req] show ?thesis
    by (intro exI [of _ ?now] exI [of _ ok]) simp
qed

lemma retry_budget_spent_witness:
  "let p = (NewRetry DefaultRetryConfig)\<lparr>rp_budget := Some 0\<rparr>; r = (Some (example_response 200), None);
     w = snd (should_retry p (Some 0) r still_world)
   in \<not> retryable (rp_cfg p) MethodGet r \<and> rb_total (w_budgets w 0) = 1 \<and> rb_retries (w_budgets w 0) = 1"
proof -
  let ?p = "(NewRetry DefaultRetryConfig)\<lparr>rp_budget := Some 0\<rparr>" and ?r = "(Some (example_response 200), None)"
  obtain now where "w_budgets (snd (should_retry ?p (Some 0) ?r still_world))
      = (w_budgets still_world)(0 := snd (budget_allow (w_float still_world) now (w_budgets still_world 0)))"
    using retry_budget_spent [of ?p 0 ?r 0 still_world] by auto
  then show ?thesis
    by (simp add: example_retry retryable_def example_response_def Let_def example_budget)
qed



end
